theory Spec2Isabelle
  imports Main "HOL-Library.Sublist" "HOL-Library.AList"
begin

section \<open>The platform: paths, the filesystem, zip archives\<close>

text \<open>
  \<^verbatim>\<open>skills/debug/repackage.py\<close> is a straight-line script over \<^verbatim>\<open>pathlib\<close> and
  \<^verbatim>\<open>zipfile\<close>. Its only input is \<^verbatim>\<open>__file__\<close> and the state of the filesystem.
  A path is the list of its components below the top directory: \<^verbatim>\<open>/\<close> when
  \<^verbatim>\<open>__file__\<close> is absolute, as it is for a script since Python 3.9, and \<^verbatim>\<open>.\<close> when it
  is relative, as it was before for \<^verbatim>\<open>python repackage.py\<close>. The empty list is the top
  directory itself. A component is a name: \<^verbatim>\<open>pathlib\<close> drops \<^verbatim>\<open>.\<close> when it parses a path
  and keeps \<^verbatim>\<open>..\<close>, which the table of the filesystem below does not resolve, so what
  is said of the tree below the source directory is said for a \<^verbatim>\<open>__file__\<close> without
  \<^verbatim>\<open>..\<close> (predicate \<open>canonical\<close>).
\<close>

type_synonym path = "string list"

text \<open>\<^verbatim>\<open>PurePath.parent\<close>: the top directory is its own parent.\<close>

definition parent :: "path \<Rightarrow> path" where
  "parent p = butlast p"

text \<open>\<^verbatim>\<open>PurePath.name\<close>: the last component, the empty string for the top directory.\<close>

definition name :: "path \<Rightarrow> string" where
  "name p = (if p = [] then [] else last p)"

text \<open>\<^verbatim>\<open>p / s\<close> for a single component \<open>s\<close>.\<close>

definition joinpath :: "path \<Rightarrow> string \<Rightarrow> path" where
  "joinpath p s = p @ [s]"

datatype error =
    FileNotFoundError
  | PermissionError
  | IsADirectoryError
  | ValueError
  | OSError

text \<open>\<^verbatim>\<open>PurePath.relative_to\<close>: raises \<^verbatim>\<open>ValueError\<close> unless \<open>other\<close> is a prefix.\<close>

definition relative_to :: "path \<Rightarrow> path \<Rightarrow> error + path" where
  "relative_to p other =
     (if prefix other p then Inr (drop (length other) p) else Inl ValueError)"

text \<open>
  The bytes of a file are either opaque, or those of a zip archive, which is described by
  its entries (name and bytes, in the order written) and by whether the closing records
  have been written, or those of an archive that a failed write has cut short after the
  entries given. Only a file with its closing records is a zip archive for a reader. An
  entry name is kept as the list of its components; \<^verbatim>\<open>zipfile\<close> stores them joined by
  \<^verbatim>\<open>/\<close>.
\<close>

datatype content =
    Bytes string
  | Zip bool "(path \<times> content) list"
  | Torn "(path \<times> content) list"

datatype node =
    File content
  | Dir
  | Special

text \<open>
  The filesystem is a table from paths to nodes, in the order a directory walk meets them.
  \<open>no_read\<close> lists the paths without read permission (a file in it cannot be opened for
  reading, a directory in it cannot be listed), \<open>no_write\<close> the paths without write
  permission (a directory in it accepts no new child and loses none); \<open>handles\<close> are the
  archives currently open for writing. Two more lists place the input and output errors
  of a run: \<open>bad_read\<close> are the files that open but whose first read raises, \<open>no_store\<close>
  the files whose bytes the archive file cannot take, because the disk is full or the
  file would grow beyond its size limit. Symbolic links and timestamps are not modelled.
\<close>

record world =
  fs :: "(path \<times> node) list"
  no_read :: "path list"
  no_write :: "path list"
  handles :: "path list"
  bad_read :: "path list"
  no_store :: "path list"

definition lookup :: "world \<Rightarrow> path \<Rightarrow> node option" where
  "lookup w p = map_of (fs w) p"

text \<open>\<^verbatim>\<open>Path.exists\<close> and \<^verbatim>\<open>Path.is_file\<close>.\<close>

definition exists :: "world \<Rightarrow> path \<Rightarrow> bool" where
  "exists w p = (lookup w p \<noteq> None)"

definition is_file :: "world \<Rightarrow> path \<Rightarrow> bool" where
  "is_file w p = (case lookup w p of Some (File c) \<Rightarrow> True | _ \<Rightarrow> False)"

text \<open>\<^verbatim>\<open>Path.unlink\<close>.\<close>

definition unlink :: "world \<Rightarrow> path \<Rightarrow> error + world" where
  "unlink w p =
     (case lookup w p of
        None \<Rightarrow> Inl FileNotFoundError
      | Some Dir \<Rightarrow> Inl IsADirectoryError
      | Some n \<Rightarrow>
          if parent p \<in> set (no_write w) then Inl PermissionError
          else Inr (w\<lparr>fs := AList.delete p (fs w)\<rparr>))"

text \<open>
  \<^verbatim>\<open>Path.rglob('*')\<close> yields every path strictly below \<open>d\<close> that the walk reaches, files
  and directories alike. The walk descends through directories only, and pathlib
  suppresses the error of a directory that is missing or cannot be listed: the walk
  then skips what lies below it and raises nothing. So \<open>p\<close> is reached when \<open>d\<close> and
  every path between \<open>d\<close> and \<open>p\<close> is a directory that can be listed.
\<close>

definition listable :: "world \<Rightarrow> path \<Rightarrow> bool" where
  "listable w q = (lookup w q = Some Dir \<and> q \<notin> set (no_read w))"

definition reaches :: "world \<Rightarrow> path \<Rightarrow> path \<Rightarrow> bool" where
  "reaches w d p =
     (strict_prefix d p \<and> list_all (\<lambda>k. listable w (take k p)) [length d..<length p])"

definition rglob :: "world \<Rightarrow> path \<Rightarrow> path list" where
  "rglob w d = filter (reaches w d) (map fst (fs w))"

text \<open>
  \<^verbatim>\<open>zipfile.ZipFile(p, 'w', ZIP_DEFLATED)\<close>: creates or truncates the file and leaves
  an archive without entries, open for writing.
\<close>

definition ZipFile :: "world \<Rightarrow> path \<Rightarrow> error + world" where
  "ZipFile w p =
     (case lookup w (parent p) of
        Some Dir \<Rightarrow>
          (case lookup w p of
             Some Dir \<Rightarrow> Inl IsADirectoryError
           | Some n \<Rightarrow>
               if p \<in> set (no_write w) then Inl PermissionError
               else Inr (w\<lparr>fs := AList.update p (File (Zip False [])) (fs w),
                           handles := p # handles w\<rparr>)
           | None \<Rightarrow>
               if parent p \<in> set (no_write w) then Inl PermissionError
               else Inr (w\<lparr>fs := AList.update p (File (Zip False [])) (fs w),
                           handles := p # handles w\<rparr>))
      | _ \<Rightarrow> Inl FileNotFoundError)"

text \<open>
  \<^verbatim>\<open>ZipFile.write(filename, arcname)\<close>: the exception raised, if any, and the world the
  call leaves. It stats and opens the file, then copies its bytes into a new entry. The
  script calls it on regular files only (line 28), so the other kinds of node are left as
  errors. Nothing is written when the file cannot be opened. When the file opens and its
  read raises, the entry is still recorded, with the bytes read so far (none). When the
  write to the archive file raises, the archive is cut short. Reading the archive that is
  being written yields the archive as it stands.
\<close>

definition ZipFile_write :: "world \<Rightarrow> path \<Rightarrow> path \<Rightarrow> path \<Rightarrow> (error + unit) \<times> world" where
  "ZipFile_write w zf filename arcname =
     (if zf \<notin> set (handles w) then (Inl ValueError, w)
      else case lookup w filename of
          None \<Rightarrow> (Inl FileNotFoundError, w)
        | Some (File c) \<Rightarrow>
            if filename \<in> set (no_read w) then (Inl PermissionError, w)
            else (case lookup w zf of
                Some (File (Zip fin es)) \<Rightarrow>
                  if filename \<in> set (bad_read w) then
                    (Inl OSError,
                     w\<lparr>fs := AList.update zf (File (Zip fin (es @ [(arcname, Bytes [])]))) (fs w)\<rparr>)
                  else if filename \<in> set (no_store w) then
                    (Inl OSError, w\<lparr>fs := AList.update zf (File (Torn es)) (fs w)\<rparr>)
                  else
                    (Inr (),
                     w\<lparr>fs := AList.update zf (File (Zip fin (es @ [(arcname, c)]))) (fs w)\<rparr>)
              | _ \<Rightarrow> (Inl ValueError, w))
        | Some Dir \<Rightarrow> (Inl IsADirectoryError, w)
        | Some Special \<Rightarrow> (Inl PermissionError, w))"

text \<open>The same call by its result alone: the exception, or the world with the new entry.\<close>

definition zf_write :: "world \<Rightarrow> path \<Rightarrow> path \<Rightarrow> path \<Rightarrow> error + world" where
  "zf_write w zf filename arcname =
     (case ZipFile_write w zf filename arcname of
        (Inl e, w') \<Rightarrow> Inl e
      | (Inr u, w') \<Rightarrow> Inr w')"

text \<open>
  \<^verbatim>\<open>ZipFile.close\<close>, which \<^verbatim>\<open>ZipFile.__exit__\<close> calls: writes the closing records in a
  \<^verbatim>\<open>try\<close> block and releases the handle in its \<^verbatim>\<open>finally\<close> clause. After a failed
  write to the archive file the write of the closing records raises as well; the handle
  is released all the same and the file stays cut short. (The closing records of an
  archive whose entries were all written are taken to fit.)
\<close>

definition close :: "world \<Rightarrow> path \<Rightarrow> (error + unit) \<times> world" where
  "close w zf =
     (case lookup w zf of
        Some (File (Zip fin es)) \<Rightarrow>
          (Inr (), w\<lparr>fs := AList.update zf (File (Zip True es)) (fs w),
                     handles := remove1 zf (handles w)\<rparr>)
      | Some (File (Torn es)) \<Rightarrow> (Inl OSError, w\<lparr>handles := remove1 zf (handles w)\<rparr>)
      | _ \<Rightarrow> (Inr (), w\<lparr>handles := remove1 zf (handles w)\<rparr>))"

section \<open>The script\<close>

text \<open>The lines the script prints. (Printing is taken not to fail.)\<close>

datatype msg =
    Removed_old string
  | Packaging_skill string
  | Added path
  | Successfully_packaged path

text \<open>
  A statement of the script maps a world to its outcome (\<open>Inl\<close> the exception raised),
  the world it leaves and the lines printed.
\<close>

type_synonym outcome = "(error + unit) \<times> world \<times> msg list"

text \<open>Lines 15 to 17.\<close>

definition script_dir :: "path \<Rightarrow> path" where
  "script_dir file = parent file"

definition skill_name :: "path \<Rightarrow> string" where
  "skill_name file = name (script_dir file)"

definition zip_path :: "path \<Rightarrow> path" where
  "zip_path file = joinpath (parent (script_dir file)) (skill_name file @ ''.zip'')"

text \<open>Lines 20 to 22.\<close>

definition remove_old :: "path \<Rightarrow> world \<Rightarrow> outcome" where
  "remove_old file w =
     (if exists w (zip_path file) then
        (case unlink w (zip_path file) of
           Inl e \<Rightarrow> (Inl e, w, [])
         | Inr w' \<Rightarrow> (Inr (), w', [Removed_old (name (zip_path file))]))
      else (Inr (), w, []))"

text \<open>
  Lines 27 to 31: the loop over the paths the walk yields. The line \<^verbatim>\<open>Added\<close> is
  printed after the call has returned, so not for an entry whose write raised.
\<close>

fun loop :: "path \<Rightarrow> path list \<Rightarrow> world \<Rightarrow> outcome" where
  "loop file [] w = (Inr (), w, [])"
| "loop file (file_path # rest) w =
     (if is_file w file_path \<and> name file_path \<noteq> ''repackage.py'' then
        (case relative_to file_path (parent (script_dir file)) of
           Inl e \<Rightarrow> (Inl e, w, [])
         | Inr arcname \<Rightarrow>
             (case ZipFile_write w (zip_path file) file_path arcname of
                (Inl e, w') \<Rightarrow> (Inl e, w', [])
              | (Inr u, w') \<Rightarrow>
                  (case loop file rest w' of
                     (r, w'', out) \<Rightarrow> (r, w'', Added arcname # out))))
      else loop file rest w)"

text \<open>
  Lines 26 to 31: the \<^verbatim>\<open>with\<close> statement. Nothing is acquired when the constructor
  raises; otherwise \<^verbatim>\<open>__exit__\<close> closes the archive however the body ends, and an
  exception raised by \<^verbatim>\<open>close\<close> is the one that leaves the statement.
\<close>

definition archive :: "path \<Rightarrow> world \<Rightarrow> outcome" where
  "archive file w =
     (case ZipFile w (zip_path file) of
        Inl e \<Rightarrow> (Inl e, w, [])
      | Inr w1 \<Rightarrow>
          (case loop file (rglob w1 (script_dir file)) w1 of
             (r, w2, out) \<Rightarrow>
               (case close w2 (zip_path file) of
                  (Inl e, w3) \<Rightarrow> (Inl e, w3, out)
                | (Inr u, w3) \<Rightarrow> (r, w3, out))))"

text \<open>The module body, lines 15 to 33.\<close>

definition run :: "path \<Rightarrow> world \<Rightarrow> outcome" where
  "run file w =
     (case remove_old file w of
        (Inl e, w1, out1) \<Rightarrow> (Inl e, w1, out1)
      | (Inr u, w1, out1) \<Rightarrow>
          (case archive file w1 of
             (Inl e, w2, out2) \<Rightarrow>
               (Inl e, w2, out1 @ [Packaging_skill (skill_name file)] @ out2)
           | (Inr u, w2, out2) \<Rightarrow>
               (Inr (), w2, out1 @ [Packaging_skill (skill_name file)] @ out2
                             @ [Successfully_packaged (zip_path file)])))"

text \<open>The exit status of the interpreter: 1 after an uncaught exception.\<close>

definition exit_status :: "outcome \<Rightarrow> nat" where
  "exit_status r = (case fst r of Inl e \<Rightarrow> 1 | Inr u \<Rightarrow> 0)"

section \<open>Observations\<close>

text \<open>What a reader finds at a path: the entries of the archive stored there, whether
  its closing records were written, and whether a failed write has cut it short.\<close>

definition entries :: "world \<Rightarrow> path \<Rightarrow> (path \<times> content) list" where
  "entries w p = (case lookup w p of Some (File (Zip fin es)) \<Rightarrow> es | _ \<Rightarrow> [])"

definition finalized :: "world \<Rightarrow> path \<Rightarrow> bool" where
  "finalized w p = (case lookup w p of Some (File (Zip fin es)) \<Rightarrow> fin | _ \<Rightarrow> False)"

definition torn :: "world \<Rightarrow> path \<Rightarrow> bool" where
  "torn w p = (case lookup w p of Some (File (Torn es)) \<Rightarrow> True | _ \<Rightarrow> False)"

text \<open>The regular files below a directory, with their bytes.\<close>

definition tree_files :: "world \<Rightarrow> path \<Rightarrow> (path \<times> content) list" where
  "tree_files w d =
     concat (map (\<lambda>(p, n). case n of
                    File c \<Rightarrow> if strict_prefix d p then [(p, c)] else []
                  | _ \<Rightarrow> []) (fs w))"

text \<open>
  A path without the components that \<^verbatim>\<open>extractall\<close> strips from an entry name: the
  empty one, \<^verbatim>\<open>.\<close> and \<^verbatim>\<open>..\<close>.
\<close>

definition canonical :: "path \<Rightarrow> bool" where
  "canonical p = list_all (\<lambda>s. s \<noteq> [] \<and> s \<noteq> ''.'' \<and> s \<noteq> ''..'') p"

text \<open>
  \<^verbatim>\<open>ZipFile.extractall(target)\<close>: the files an extraction creates, with their bytes,
  each at its entry name below the target, stripped of those components.
\<close>

definition extractall :: "path \<Rightarrow> (path \<times> content) list \<Rightarrow> (path \<times> content) list" where
  "extractall target es =
     map (\<lambda>(a, c). (target @ filter (\<lambda>s. s \<noteq> [] \<and> s \<noteq> ''.'' \<and> s \<noteq> ''..'') a, c)) es"

text \<open>
  What the body of the loop adds for one path \<open>p\<close>, given the node \<open>v\<close> found there: an
  entry for a regular file that is not named \<^verbatim>\<open>repackage.py\<close>, nothing otherwise.
\<close>

definition packed :: "path \<Rightarrow> path \<Rightarrow> node option \<Rightarrow> (path \<times> content) list" where
  "packed file p v =
     (case v of
        Some (File c) \<Rightarrow>
          if name p \<noteq> ''repackage.py''
          then [(drop (length (parent (script_dir file))) p, c)] else []
      | _ \<Rightarrow> [])"

section \<open>Sample inputs\<close>

text \<open>The tree \<^verbatim>\<open>/srv/debug/{a.txt, b/c.txt, b/repackage.py, repackage.py}\<close>.\<close>

definition debug_py :: path where
  "debug_py = [''srv'', ''debug'', ''repackage.py'']"

definition debug_world :: world where
  "debug_world =
     \<lparr>fs = [([], Dir), ([''srv''], Dir), ([''srv'', ''debug''], Dir),
            ([''srv'', ''debug'', ''a.txt''], File (Bytes ''A'')),
            ([''srv'', ''debug'', ''b''], Dir),
            ([''srv'', ''debug'', ''b'', ''c.txt''], File (Bytes ''C'')),
            ([''srv'', ''debug'', ''b'', ''repackage.py''], File (Bytes ''Q'')),
            ([''srv'', ''debug'', ''repackage.py''], File (Bytes ''P''))],
      no_read = [], no_write = [], handles = [], bad_read = [], no_store = []\<rparr>"

text \<open>
  The same tree with \<^verbatim>\<open>b/c.txt\<close> unreadable; with \<^verbatim>\<open>b/c.txt\<close> opening but failing to
  be read; with \<^verbatim>\<open>b/c.txt\<close> too large for what the archive file can still take.
\<close>

definition locked_world :: world where
  "locked_world = debug_world\<lparr>no_read := [[''srv'', ''debug'', ''b'', ''c.txt'']]\<rparr>"

definition faulty_world :: world where
  "faulty_world = debug_world\<lparr>bad_read := [[''srv'', ''debug'', ''b'', ''c.txt'']]\<rparr>"

definition full_world :: world where
  "full_world = debug_world\<lparr>no_store := [[''srv'', ''debug'', ''b'', ''c.txt'']]\<rparr>"

text \<open>The same tree with the subdirectory \<^verbatim>\<open>b\<close>, or the source directory itself, not listable.\<close>

definition hidden_world :: world where
  "hidden_world = debug_world\<lparr>no_read := [[''srv'', ''debug'', ''b'']]\<rparr>"

definition unlisted_world :: world where
  "unlisted_world = debug_world\<lparr>no_read := [[''srv'', ''debug'']]\<rparr>"

text \<open>The same tree below a directory that accepts no new file.\<close>

definition readonly_world :: world where
  "readonly_world = debug_world\<lparr>no_write := [[''srv'']]\<rparr>"

text \<open>The same tree beside the output of an earlier run.\<close>

definition stale_world :: world where
  "stale_world = debug_world\<lparr>fs := fs debug_world @ [([''srv'', ''debug.zip''], File (Bytes ''old''))]\<rparr>"

text \<open>A filesystem in which \<^verbatim>\<open>/srv/debug\<close> does not exist.\<close>

definition bare_world :: world where
  "bare_world =
     \<lparr>fs = [([], Dir), ([''srv''], Dir)],
      no_read = [], no_write = [], handles = [], bad_read = [], no_store = []\<rparr>"

text \<open>
  The usage of the docstring, \<^verbatim>\<open>cd debug; python repackage.py\<close>, with the relative
  \<^verbatim>\<open>__file__\<close> that Python gave a script before 3.9: the paths are relative to the
  working directory \<^verbatim>\<open>debug\<close>, which holds the script beside one file.
\<close>

definition usage_py :: path where
  "usage_py = [''repackage.py'']"

definition usage_world :: world where
  "usage_world =
     \<lparr>fs = [([], Dir), ([''a.txt''], File (Bytes ''A'')),
            ([''repackage.py''], File (Bytes ''P''))],
      no_read = [], no_write = [], handles = [], bad_read = [], no_store = []\<rparr>"

section \<open>Paths\<close>

lemma prefix_parent: "strict_prefix d p \<Longrightarrow> prefix (parent d) p"
  unfolding parent_def
  by (meson prefix_order.dual_order.strict_implies_order prefix_order.trans prefixeq_butlast)

lemma relative_to_below:
  "strict_prefix d p \<Longrightarrow> relative_to p (parent d) = Inr (drop (length (parent d)) p)"
  by (simp add: relative_to_def prefix_parent)

lemma relative_to_Inr: "relative_to p q = Inr a \<Longrightarrow> a = drop (length q) p \<and> prefix q p"
  by (auto simp: relative_to_def split: if_splits)

lemma parent_append_below:
  assumes "strict_prefix d p"
  shows "parent d @ drop (length (parent d)) p = p"
  using prefix_parent [OF assms] by (auto simp: prefix_def)

lemma name_drop_below:
  assumes "strict_prefix d p"
  shows "name (drop (length (parent d)) p) = name p \<and> drop (length (parent d)) p \<noteq> []"
proof -
  from assms obtain q where p: "p = d @ q" and q: "q \<noteq> []"
    by (auto simp: strict_prefix_def prefix_def)
  have "length (parent d) < length p"
    using p q by (cases q) (simp_all add: parent_def)
  then show ?thesis by (auto simp: name_def)
qed

lemma drop_inj_on_below: "inj_on (drop (length q)) {p. prefix q p}"
  by (auto simp: inj_on_def prefix_def)

lemma distinct_names_below:
  assumes "distinct ps" and "\<forall>p\<in>set ps. strict_prefix d p"
  shows "distinct (map (drop (length (parent d))) ps)"
proof -
  have "set ps \<subseteq> {p. prefix (parent d) p}" using assms(2) prefix_parent by auto
  then have "inj_on (drop (length (parent d))) (set ps)"
    by (rule inj_on_subset [OF drop_inj_on_below])
  with assms(1) show ?thesis by (simp add: distinct_map)
qed

lemma zip_path_outside:
  assumes "script_dir file \<noteq> []"
  shows "\<not> prefix (script_dir file) (zip_path file)"
proof
  let ?d = "script_dir file"
  assume pre: "prefix ?d (zip_path file)"
  from assms have d: "?d = butlast ?d @ [last ?d]" by simp
  have z: "zip_path file = butlast ?d @ [last ?d @ ''.zip'']"
    using assms by (simp add: zip_path_def joinpath_def parent_def skill_name_def name_def)
  from pre obtain q where "zip_path file = ?d @ q" by (auto simp: prefix_def)
  with z d have "butlast ?d @ [last ?d @ ''.zip''] = butlast ?d @ ([last ?d] @ q)"
    by (metis append_assoc)
  then have "[last ?d @ ''.zip''] = [last ?d] @ q" by (simp only: same_append_eq)
  then show False by simp
qed

lemma zip_path_not_below:
  "script_dir file \<noteq> [] \<Longrightarrow> \<not> strict_prefix (script_dir file) (zip_path file)"
  using zip_path_outside by (auto simp: strict_prefix_def)

section \<open>The table of the filesystem\<close>

lemma keys_fresh:
  "map fst (AList.update z v (AList.delete z al)) = removeAll z (map fst al) @ [z]"
  by (simp add: update_keys delete_keys)

lemma filter_keys_fresh:
  assumes "\<not> P z"
  shows "filter P (map fst (AList.update z v (AList.delete z al))) = filter P (map fst al)"
proof -
  have "filter P (removeAll z (map fst al)) = filter P (map fst al)"
    using assms by (induction al) auto
  with assms show ?thesis by (simp add: keys_fresh)
qed

lemma concat_filter_keys:
  assumes "distinct (map fst tbl)"
  shows "concat (map (\<lambda>p. g p (map_of tbl p)) (filter P (map fst tbl)))
       = concat (map (\<lambda>(p, n). if P p then g p (Some n) else []) tbl)"
proof -
  have gen: "concat (map h (filter P (map fst xs)))
      = concat (map (\<lambda>(p, n). if P p then h p else []) xs)" for h and xs :: "('a \<times> 'b) list"
    by (induction xs) auto
  have "concat (map (\<lambda>(p, n). if P p then g p (map_of tbl p) else []) tbl)
      = concat (map (\<lambda>(p, n). if P p then g p (Some n) else []) tbl)"
  proof (intro arg_cong [where f = concat] map_cong refl)
    fix x assume x: "x \<in> set tbl"
    obtain p n where pn: "x = (p, n)" by (cases x)
    with x assms have "map_of tbl p = Some n" by simp
    with pn show "(case x of (p, n) \<Rightarrow> if P p then g p (map_of tbl p) else [])
        = (case x of (p, n) \<Rightarrow> if P p then g p (Some n) else [])" by simp
  qed
  with gen [of "\<lambda>p. g p (map_of tbl p)" tbl] show ?thesis by simp
qed

lemma lookup_update_fs:
  "lookup (w\<lparr>fs := AList.update z v (fs w)\<rparr>) p = (if p = z then Some v else lookup w p)"
  by (simp add: lookup_def update_conv')

lemma lookup_scan_time:
  "p \<noteq> z \<Longrightarrow> lookup (w\<lparr>fs := AList.update z v (AList.delete z (fs w)), handles := h\<rparr>) p = lookup w p"
  by (simp add: lookup_def update_conv' delete_conv')

lemma is_file_update_fs:
  "is_file (w\<lparr>fs := AList.update z (File c) (fs w)\<rparr>) p = (p = z \<or> is_file w p)"
  by (simp add: is_file_def lookup_update_fs)

lemma update_fs_triv:
  "lookup w z = Some v \<Longrightarrow> w\<lparr>fs := AList.update z v (fs w)\<rparr> = w"
  by (simp add: lookup_def update_triv)

lemma entries_update_fs:
  "entries (w\<lparr>fs := AList.update z (File (Zip fin es)) al\<rparr>) z = es"
  by (simp add: entries_def lookup_def update_conv')

lemma finalized_update_fs:
  "finalized (w\<lparr>fs := AList.update z (File (Zip fin es)) al\<rparr>) z = fin"
  by (simp add: finalized_def lookup_def update_conv')

lemma torn_update_fs:
  "torn (w\<lparr>fs := AList.update z (File (Torn es)) al\<rparr>) z"
  "\<not> torn (w\<lparr>fs := AList.update z (File (Zip fin es)) al\<rparr>) z"
  "\<not> finalized (w\<lparr>fs := AList.update z (File (Torn es)) al\<rparr>) z"
  by (simp_all add: torn_def finalized_def lookup_def update_conv')

lemma not_exists_delete: "\<not> exists (w\<lparr>fs := AList.delete p (fs w)\<rparr>) p"
  by (simp add: exists_def lookup_def delete_conv')

lemma delete_absent: "\<not> exists w p \<Longrightarrow> w\<lparr>fs := AList.delete p (fs w)\<rparr> = w"
proof -
  assume "\<not> exists w p"
  then have "map_of (fs w) p = None" by (simp add: exists_def lookup_def)
  then have "p \<notin> fst ` set (fs w)" by (simp add: map_of_eq_None_iff)
  then show ?thesis by simp
qed

section \<open>The walk\<close>

lemma rglob_below: "p \<in> set (rglob w d) \<Longrightarrow> strict_prefix d p"
  by (simp add: rglob_def reaches_def)

lemma reaches_frame:
  assumes "no_read w' = no_read w"
    and "\<And>q. prefix d q \<Longrightarrow> lookup w' q = lookup w q"
  shows "reaches w' d p = reaches w d p"
proof (cases "strict_prefix d p")
  case False
  then show ?thesis by (simp add: reaches_def)
next
  case True
  then have pre: "prefix d p" by (simp add: strict_prefix_def)
  have "listable w' (take k p) = listable w (take k p)" if "k \<in> set [length d..<length p]" for k
  proof -
    from pre obtain r where "p = d @ r" by (auto simp: prefix_def)
    with that have "prefix d (take k p)" by (simp add: prefix_def)
    from assms(2) [OF this] assms(1) show ?thesis by (simp add: listable_def)
  qed
  then have "list_all (\<lambda>k. listable w' (take k p)) [length d..<length p]
      = list_all (\<lambda>k. listable w (take k p)) [length d..<length p]"
    by (auto simp: list_all_iff)
  then show ?thesis by (simp add: reaches_def)
qed

lemma rglob_scan_time:
  assumes "script_dir file \<noteq> []"
  shows "rglob (w\<lparr>fs := AList.update (zip_path file) v (AList.delete (zip_path file) (fs w)),
                   handles := h\<rparr>) (script_dir file) = rglob w (script_dir file)"
proof -
  let ?z = "zip_path file" and ?d = "script_dir file"
  let ?w1 = "w\<lparr>fs := AList.update ?z v (AList.delete ?z (fs w)), handles := h\<rparr>"
  have "reaches ?w1 ?d p = reaches w ?d p" for p
  proof (rule reaches_frame)
    show "no_read ?w1 = no_read w" by simp
  next
    fix q assume "prefix ?d q"
    with zip_path_outside [OF assms] have "q \<noteq> ?z" by auto
    then show "lookup ?w1 q = lookup w q" by (rule lookup_scan_time)
  qed
  then have same: "reaches ?w1 ?d = reaches w ?d" by (intro ext)
  have "\<not> reaches w ?d ?z" using zip_path_not_below [OF assms] by (simp add: reaches_def)
  then have "filter (reaches w ?d) (map fst (fs ?w1)) = filter (reaches w ?d) (map fst (fs w))"
    by (simp add: filter_keys_fresh)
  then show ?thesis by (simp add: rglob_def same)
qed

section \<open>The calls\<close>

lemma unlink_Inr:
  "unlink w p = Inr w1 \<Longrightarrow>
     w1 = w\<lparr>fs := AList.delete p (fs w)\<rparr> \<and> parent p \<notin> set (no_write w) \<and> exists w p"
  by (auto simp: unlink_def exists_def split: option.splits node.splits if_splits)

lemma unlink_left_archive:
  assumes "parent z \<notin> set (no_write w0)"
  shows "unlink (w0\<lparr>fs := AList.update z (File c) (fs w0)\<rparr>) z
           = Inr (w0\<lparr>fs := AList.delete z (fs w0)\<rparr>)"
  using assms by (simp add: unlink_def lookup_def update_conv' delete_update_same)

lemma ZipFile_Inr:
  assumes "ZipFile w p = Inr w1"
  shows "w1 = w\<lparr>fs := AList.update p (File (Zip False [])) (fs w), handles := p # handles w\<rparr>
       \<and> lookup w (parent p) = Some Dir
       \<and> (\<not> exists w p \<longrightarrow> parent p \<notin> set (no_write w))"
  using assms
  by (auto simp: ZipFile_def exists_def split: option.splits node.splits if_splits)

text \<open>The write of a regular file into an open archive, by the faults of the file.\<close>

lemma ZipFile_write_file:
  assumes "z \<in> set (handles w)" and "lookup w p = Some (File c)"
    and "lookup w z = Some (File (Zip fin es))"
  shows "ZipFile_write w z p a =
     (if p \<in> set (no_read w) then (Inl PermissionError, w)
      else if p \<in> set (bad_read w) then
        (Inl OSError, w\<lparr>fs := AList.update z (File (Zip fin (es @ [(a, Bytes [])]))) (fs w)\<rparr>)
      else if p \<in> set (no_store w) then
        (Inl OSError, w\<lparr>fs := AList.update z (File (Torn es)) (fs w)\<rparr>)
      else (Inr (), w\<lparr>fs := AList.update z (File (Zip fin (es @ [(a, c)]))) (fs w)\<rparr>))"
  using assms by (simp add: ZipFile_write_def)

lemma ZipFile_write_Inr:
  assumes "ZipFile_write w z p a = (Inr u, w1)"
  shows "\<exists>c fin es. lookup w p = Some (File c) \<and> lookup w z = Some (File (Zip fin es))
           \<and> w1 = w\<lparr>fs := AList.update z (File (Zip fin (es @ [(a, c)]))) (fs w)\<rparr>
           \<and> p \<notin> set (no_read w) \<and> z \<in> set (handles w)"
  using assms
  by (auto simp: ZipFile_write_def split: if_splits option.splits node.splits content.splits)

lemma ZipFile_write_Inl:
  assumes "ZipFile_write w z p a = (Inl e, w1)"
    and "lookup w z = Some (File (Zip fin es))"
  shows "w1 = w
       \<or> w1 = w\<lparr>fs := AList.update z (File (Zip fin (es @ [(a, Bytes [])]))) (fs w)\<rparr>
       \<or> (w1 = w\<lparr>fs := AList.update z (File (Torn es)) (fs w)\<rparr> \<and> e = OSError)"
  using assms
  by (auto simp: ZipFile_write_def split: if_splits option.splits node.splits content.splits)

lemma zf_write_Inl:
  "zf_write w z p a = Inl e \<Longrightarrow> \<exists>w1. ZipFile_write w z p a = (Inl e, w1)"
  by (auto simp: zf_write_def split: prod.splits sum.splits)

lemma close_open:
  assumes "lookup w2 z = Some (File (Zip fin es))"
  shows "close w2 z = (Inr (), w2\<lparr>fs := AList.update z (File (Zip True es)) (fs w2),
                                  handles := remove1 z (handles w2)\<rparr>)"
  using assms by (simp add: close_def)

lemma close_torn:
  assumes "lookup w2 z = Some (File (Torn es))"
  shows "close w2 z = (Inl OSError, w2\<lparr>handles := remove1 z (handles w2)\<rparr>)"
  using assms by (simp add: close_def)

section \<open>The loop\<close>

lemma packed_selected:
  "lookup w p = Some (File c) \<Longrightarrow> name p \<noteq> ''repackage.py'' \<Longrightarrow>
     packed file p (lookup w p) = [(drop (length (parent (script_dir file))) p, c)]"
  by (simp add: packed_def)

lemma packed_skipped:
  "\<not> (is_file w p \<and> name p \<noteq> ''repackage.py'') \<Longrightarrow> packed file p (lookup w p) = []"
  by (auto simp: packed_def is_file_def split: option.splits node.splits)

text \<open>
  However the loop ends, it has changed the archive file only: it leaves an open archive,
  or one cut short, and then it ends with the error of the failed write.
\<close>

lemma loop_leaves:
  assumes "loop file ps w = (r, w', out)"
    and "lookup w (zip_path file) = Some (File (Zip fin es))"
  shows "(\<exists>es'. w' = w\<lparr>fs := AList.update (zip_path file) (File (Zip fin es')) (fs w)\<rparr>)
       \<or> (\<exists>es'. w' = w\<lparr>fs := AList.update (zip_path file) (File (Torn es')) (fs w)\<rparr>
                \<and> r = Inl OSError)"
  using assms
proof (induction ps arbitrary: w es out)
  case Nil
  then have "w' = w\<lparr>fs := AList.update (zip_path file) (File (Zip fin es)) (fs w)\<rparr>"
    by (simp add: update_fs_triv)
  then show ?case by blast
next
  case (Cons p ps)
  let ?z = "zip_path file"
  have same: "w\<lparr>fs := AList.update ?z (File (Zip fin es)) (fs w)\<rparr> = w"
    using Cons.prems(2) by (rule update_fs_triv)
  show ?case
  proof (cases "is_file w p \<and> name p \<noteq> ''repackage.py''")
    case False
    with Cons.prems have "loop file ps w = (r, w', out)" by auto
    from Cons.IH [OF this Cons.prems(2)] show ?thesis .
  next
    case sel: True
    show ?thesis
    proof (cases "relative_to p (parent (script_dir file))")
      case (Inl e)
      with sel Cons.prems have "w' = w" by auto
      with same show ?thesis by metis
    next
      case (Inr a)
      obtain rc w1 where wr: "ZipFile_write w ?z p a = (rc, w1)"
        by (cases "ZipFile_write w ?z p a") auto
      show ?thesis
      proof (cases rc)
        case (Inl e)
        with sel Inr wr Cons.prems(1) have r: "r = Inl e" and w': "w' = w1" by auto
        from ZipFile_write_Inl [OF wr [unfolded Inl] Cons.prems(2)] same r w'
        show ?thesis by metis
      next
        case ok: (Inr u)
        from ZipFile_write_Inr [OF wr [unfolded ok]] Cons.prems(2) obtain c where
          w1: "w1 = w\<lparr>fs := AList.update ?z (File (Zip fin (es @ [(a, c)]))) (fs w)\<rparr>"
          by auto
        obtain out1 where rest: "loop file ps w1 = (r, w', out1)"
          using sel Inr wr ok Cons.prems(1) by (auto split: prod.splits)
        have "lookup w1 ?z = Some (File (Zip fin (es @ [(a, c)])))"
          by (simp add: w1 lookup_update_fs)
        from Cons.IH [OF rest this] show ?thesis
          by (auto simp: w1)
      qed
    qed
  qed
qed

lemma loop_success:
  assumes "loop file ps w = (Inr (), w', out)"
    and "lookup w (zip_path file) = Some (File (Zip fin es))"
  shows "\<exists>es'. w' = w\<lparr>fs := AList.update (zip_path file) (File (Zip fin (es @ es'))) (fs w)\<rparr>
     \<and> out = map (Added \<circ> fst) es'
     \<and> map fst es' = map (drop (length (parent (script_dir file))))
           (filter (\<lambda>p. is_file w p \<and> name p \<noteq> ''repackage.py'') ps)
     \<and> (zip_path file \<notin> set ps \<longrightarrow> es' = concat (map (\<lambda>p. packed file p (lookup w p)) ps))"
  using assms
proof (induction ps arbitrary: w es out)
  case Nil
  then show ?case by (simp add: update_fs_triv)
next
  case (Cons p ps)
  let ?z = "zip_path file" and ?k = "length (parent (script_dir file))"
  let ?sel = "\<lambda>w p. is_file w p \<and> name p \<noteq> ''repackage.py''"
  show ?case
  proof (cases "?sel w p")
    case False
    with Cons.prems have "loop file ps w = (Inr (), w', out)" by auto
    from Cons.IH [OF this Cons.prems(2)] obtain es' where
      e1: "w' = w\<lparr>fs := AList.update ?z (File (Zip fin (es @ es'))) (fs w)\<rparr>"
      and e0: "out = map (Added \<circ> fst) es'"
      and e2: "map fst es' = map (drop ?k) (filter (?sel w) ps)"
      and e3: "?z \<notin> set ps \<longrightarrow> es' = concat (map (\<lambda>p. packed file p (lookup w p)) ps)"
      by blast
    have g2: "map fst es' = map (drop ?k) (filter (?sel w) (p # ps))"
      using e2 False by simp
    have g3: "?z \<notin> set (p # ps) \<longrightarrow> es' = concat (map (\<lambda>p. packed file p (lookup w p)) (p # ps))"
      using e3 packed_skipped [OF False] by simp
    from e1 e0 g2 g3 show ?thesis by blast
  next
    case sel: True
    then obtain c where c: "lookup w p = Some (File c)"
      by (auto simp: is_file_def split: option.splits node.splits)
    obtain a w1 out1 where rel: "relative_to p (parent (script_dir file)) = Inr a"
      and wr: "ZipFile_write w ?z p a = (Inr (), w1)"
      and rest: "loop file ps w1 = (Inr (), w', out1)"
      and out: "out = Added a # out1"
      using sel Cons.prems(1) by (auto split: sum.splits prod.splits)
    from relative_to_Inr [OF rel] have a: "a = drop ?k p" by simp
    from ZipFile_write_Inr [OF wr] Cons.prems(2) c have
      w1: "w1 = w\<lparr>fs := AList.update ?z (File (Zip fin (es @ [(a, c)]))) (fs w)\<rparr>"
      by auto
    have z1: "lookup w1 ?z = Some (File (Zip fin (es @ [(a, c)])))"
      by (simp add: w1 lookup_update_fs)
    have zfile: "is_file w ?z" using Cons.prems(2) by (simp add: is_file_def)
    have same_file: "is_file w1 q = is_file w q" for q
      using zfile by (auto simp: w1 is_file_update_fs)
    from Cons.IH [OF rest z1] obtain es1 where
      e1: "w' = w1\<lparr>fs := AList.update ?z (File (Zip fin ((es @ [(a, c)]) @ es1))) (fs w1)\<rparr>"
      and e0: "out1 = map (Added \<circ> fst) es1"
      and e2: "map fst es1 = map (drop ?k) (filter (?sel w1) ps)"
      and e3: "?z \<notin> set ps \<longrightarrow> es1 = concat (map (\<lambda>p. packed file p (lookup w1 p)) ps)"
      by blast
    have g1: "w' = w\<lparr>fs := AList.update ?z (File (Zip fin (es @ ((a, c) # es1)))) (fs w)\<rparr>"
      using e1 by (simp add: w1)
    have g0: "out = map (Added \<circ> fst) ((a, c) # es1)"
      using e0 out by simp
    have g2: "map fst ((a, c) # es1) = map (drop ?k) (filter (?sel w) (p # ps))"
      using e2 sel a by (simp add: same_file)
    have g3: "(a, c) # es1 = concat (map (\<lambda>p. packed file p (lookup w p)) (p # ps))"
      if nz: "?z \<notin> set (p # ps)"
    proof -
      have "map (\<lambda>p. packed file p (lookup w1 p)) ps = map (\<lambda>p. packed file p (lookup w p)) ps"
      proof (intro map_cong refl)
        fix q assume "q \<in> set ps"
        with nz have "q \<noteq> ?z" by auto
        then show "packed file q (lookup w1 q) = packed file q (lookup w q)"
          by (simp add: w1 lookup_update_fs)
      qed
      with e3 nz sel a packed_selected [OF c] show ?thesis by simp
    qed
    from g1 g0 g2 g3 show ?thesis by blast
  qed
qed

lemma loop_append:
  "loop file (ps @ qs) w =
     (case loop file ps w of
        (Inl e, w1, out1) \<Rightarrow> (Inl e, w1, out1)
      | (Inr u, w1, out1) \<Rightarrow>
          (case loop file qs w1 of (r, w2, out2) \<Rightarrow> (r, w2, out1 @ out2)))"
  by (induction ps arbitrary: w) (auto split: sum.splits prod.splits)

text \<open>The loop stops at the first write that raises, in the world that write leaves.\<close>

lemma loop_write_raises:
  assumes "loop file before w = (Inr (), wi, outi)"
    and "is_file wi p" and "name p \<noteq> ''repackage.py''"
    and "relative_to p (parent (script_dir file)) = Inr a"
    and "ZipFile_write wi (zip_path file) p a = (Inl e, wl)"
  shows "loop file (before @ p # after) w = (Inl e, wl, outi)"
  using assms by (simp add: loop_append)

section \<open>The statements of the script\<close>

lemma remove_old_cases:
  assumes "remove_old file w = (r, w0, out0)"
  shows "(\<exists>e. r = Inl e \<and> exists w (zip_path file) \<and> unlink w (zip_path file) = Inl e
             \<and> w0 = w \<and> out0 = [])
       \<or> (r = Inr () \<and> w0 = w\<lparr>fs := AList.delete (zip_path file) (fs w)\<rparr>
             \<and> (exists w (zip_path file) \<longrightarrow> parent (zip_path file) \<notin> set (no_write w)))"
proof (cases "exists w (zip_path file)")
  case False
  with assms show ?thesis by (auto simp: remove_old_def delete_absent)
next
  case True
  show ?thesis
  proof (cases "unlink w (zip_path file)")
    case (Inl e)
    with True assms show ?thesis by (auto simp: remove_old_def)
  next
    case (Inr w1)
    from unlink_Inr [OF Inr] True Inr assms show ?thesis by (auto simp: remove_old_def)
  qed
qed

lemma remove_old_handles:
  "remove_old file w = (r, w0, out0) \<Longrightarrow> handles w0 = handles w"
  by (auto dest!: remove_old_cases)

text \<open>
  The \<^verbatim>\<open>with\<close> statement, once the archive is open: the loop leaves either an open archive,
  which \<^verbatim>\<open>close\<close> finalizes, and the statement ends as the loop did; or an archive cut
  short by a failed write, which stays so, and the statement ends with that error.
\<close>

lemma archive_opened:
  assumes "ZipFile w0 (zip_path file) = Inr w1"
    and "archive file w0 = (r, w', out)"
  shows "\<exists>rl w2. loop file (rglob w1 (script_dir file)) w1 = (rl, w2, out)
       \<and> ((\<exists>es. w2 = w1\<lparr>fs := AList.update (zip_path file) (File (Zip False es)) (fs w1)\<rparr>
                \<and> w' = w0\<lparr>fs := AList.update (zip_path file) (File (Zip True es)) (fs w0)\<rparr>
                \<and> r = rl)
          \<or> (\<exists>es. w2 = w1\<lparr>fs := AList.update (zip_path file) (File (Torn es)) (fs w1)\<rparr>
                \<and> w' = w0\<lparr>fs := AList.update (zip_path file) (File (Torn es)) (fs w0)\<rparr>
                \<and> rl = Inl OSError \<and> r = Inl OSError))"
proof -
  let ?z = "zip_path file"
  from ZipFile_Inr [OF assms(1)] have
    w1: "w1 = w0\<lparr>fs := AList.update ?z (File (Zip False [])) (fs w0), handles := ?z # handles w0\<rparr>"
    by simp
  obtain rl w2 outl where lp: "loop file (rglob w1 (script_dir file)) w1 = (rl, w2, outl)"
    by (cases "loop file (rglob w1 (script_dir file)) w1") auto
  have z1: "lookup w1 ?z = Some (File (Zip False []))"
    by (simp add: w1 lookup_def update_conv')
  from loop_leaves [OF lp z1] show ?thesis
  proof (elim disjE exE conjE)
    fix es
    assume w2: "w2 = w1\<lparr>fs := AList.update ?z (File (Zip False es)) (fs w1)\<rparr>"
    then have "lookup w2 ?z = Some (File (Zip False es))" by (simp add: lookup_update_fs)
    from close_open [OF this] have
      "close w2 ?z = (Inr (), w0\<lparr>fs := AList.update ?z (File (Zip True es)) (fs w0)\<rparr>)"
      by (simp add: w2 w1)
    with assms lp have "r = rl" "w' = w0\<lparr>fs := AList.update ?z (File (Zip True es)) (fs w0)\<rparr>"
      "out = outl"
      by (simp_all add: archive_def)
    with lp w2 show ?thesis by blast
  next
    fix es
    assume w2: "w2 = w1\<lparr>fs := AList.update ?z (File (Torn es)) (fs w1)\<rparr>"
      and rl: "rl = Inl OSError"
    then have "lookup w2 ?z = Some (File (Torn es))" by (simp add: lookup_update_fs)
    from close_torn [OF this] have
      "close w2 ?z = (Inl OSError, w0\<lparr>fs := AList.update ?z (File (Torn es)) (fs w0)\<rparr>)"
      by (simp add: w2 w1)
    with assms lp have "r = Inl OSError"
      "w' = w0\<lparr>fs := AList.update ?z (File (Torn es)) (fs w0)\<rparr>" "out = outl"
      by (simp_all add: archive_def)
    with lp w2 rl show ?thesis by blast
  qed
qed

lemma archive_cases:
  assumes "archive file w0 = (r, w', out)"
  shows "(\<exists>e. r = Inl e \<and> ZipFile w0 (zip_path file) = Inl e \<and> w' = w0 \<and> out = [])
       \<or> (\<exists>w1 c. ZipFile w0 (zip_path file) = Inr w1
             \<and> r = fst (loop file (rglob w1 (script_dir file)) w1)
             \<and> w' = w0\<lparr>fs := AList.update (zip_path file) (File c) (fs w0)\<rparr>)"
proof (cases "ZipFile w0 (zip_path file)")
  case (Inl e)
  with assms show ?thesis by (simp add: archive_def)
next
  case (Inr w1)
  from archive_opened [OF Inr assms] Inr show ?thesis by fastforce
qed

lemma archive_success:
  assumes "archive file w0 = (Inr (), w', out)"
  shows "\<exists>w1 es. ZipFile w0 (zip_path file) = Inr w1
     \<and> w' = w0\<lparr>fs := AList.update (zip_path file) (File (Zip True es)) (fs w0)\<rparr>
     \<and> map fst es = map (drop (length (parent (script_dir file))))
           (filter (\<lambda>p. is_file w1 p \<and> name p \<noteq> ''repackage.py'') (rglob w1 (script_dir file)))
     \<and> (zip_path file \<notin> set (rglob w1 (script_dir file)) \<longrightarrow>
          es = concat (map (\<lambda>p. packed file p (lookup w1 p)) (rglob w1 (script_dir file))))"
proof -
  let ?z = "zip_path file" and ?d = "script_dir file"
  from assms obtain w1 where op: "ZipFile w0 ?z = Inr w1"
    by (cases "ZipFile w0 ?z") (auto simp: archive_def)
  from ZipFile_Inr [OF op] have
    w1: "w1 = w0\<lparr>fs := AList.update ?z (File (Zip False [])) (fs w0), handles := ?z # handles w0\<rparr>"
    by simp
  from archive_opened [OF op assms] obtain w2 es0 where
    lp: "loop file (rglob w1 ?d) w1 = (Inr (), w2, out)"
    and w': "w' = w0\<lparr>fs := AList.update ?z (File (Zip True es0)) (fs w0)\<rparr>"
    and w2: "w2 = w1\<lparr>fs := AList.update ?z (File (Zip False es0)) (fs w1)\<rparr>"
    by auto
  have "lookup w1 ?z = Some (File (Zip False []))"
    by (simp add: w1 lookup_def update_conv')
  from loop_success [OF lp this] obtain es where
    w2': "w2 = w1\<lparr>fs := AList.update ?z (File (Zip False es)) (fs w1)\<rparr>"
    and names: "map fst es = map (drop (length (parent ?d)))
           (filter (\<lambda>p. is_file w1 p \<and> name p \<noteq> ''repackage.py'') (rglob w1 ?d))"
    and conts: "?z \<notin> set (rglob w1 ?d) \<longrightarrow>
          es = concat (map (\<lambda>p. packed file p (lookup w1 p)) (rglob w1 ?d))"
    by auto
  from w2 w2' have "lookup (w1\<lparr>fs := AList.update ?z (File (Zip False es0)) (fs w1)\<rparr>) ?z
      = lookup (w1\<lparr>fs := AList.update ?z (File (Zip False es)) (fs w1)\<rparr>) ?z" by simp
  then have "es0 = es" by (simp add: lookup_update_fs)
  with op w' names conts show ?thesis by blast
qed

lemma run_cases:
  assumes "run file w = (r, w', out)"
  shows "(\<exists>e out0. r = Inl e \<and> remove_old file w = (Inl e, w', out0))
       \<or> (\<exists>w0 out0 out1. remove_old file w = (Inr (), w0, out0)
             \<and> archive file w0 = (r, w', out1))"
  using assms
  by (auto simp: run_def split: prod.splits sum.splits)

lemma run_success:
  assumes "run file w = (Inr (), w', out)"
  shows "\<exists>out0 out1. remove_old file w = (Inr (), w\<lparr>fs := AList.delete (zip_path file) (fs w)\<rparr>, out0)
      \<and> archive file (w\<lparr>fs := AList.delete (zip_path file) (fs w)\<rparr>) = (Inr (), w', out1)"
proof -
  from run_cases [OF assms] obtain w0 out0 out1 where
    ro: "remove_old file w = (Inr (), w0, out0)" and ar: "archive file w0 = (Inr (), w', out1)"
    by auto
  from remove_old_cases [OF ro] have "w0 = w\<lparr>fs := AList.delete (zip_path file) (fs w)\<rparr>"
    by auto
  with ro ar show ?thesis by auto
qed

lemma run_after_remove_old:
  assumes "remove_old file w = (Inr (), w0, out0)"
  shows "fst (run file w) = fst (archive file w0)
       \<and> fst (snd (run file w)) = fst (snd (archive file w0))"
  using assms by (auto simp: run_def split: prod.splits sum.splits)

lemma run_lines:
  assumes "remove_old file w = (Inr (), w0, out0)"
    and "archive file w0 = (Inl e, w', out1)"
  shows "run file w = (Inl e, w', out0 @ Packaging_skill (skill_name file) # out1)"
  using assms by (simp add: run_def)

text \<open>Every entry of a successful run comes from a selected path of the walk.\<close>

lemma entry_source:
  assumes "run file w = (Inr (), w', out)"
    and "(a, c) \<in> set (entries w' (zip_path file))"
  shows "\<exists>p. is_file w' p \<and> name p \<noteq> ''repackage.py'' \<and> strict_prefix (script_dir file) p
           \<and> a = drop (length (parent (script_dir file))) p"
proof -
  let ?z = "zip_path file" and ?d = "script_dir file"
  let ?w0 = "w\<lparr>fs := AList.delete ?z (fs w)\<rparr>"
  from run_success [OF assms(1)] obtain out1 where "archive file ?w0 = (Inr (), w', out1)"
    by auto
  from archive_success [OF this] obtain w1 es where
    op: "ZipFile ?w0 ?z = Inr w1"
    and w': "w' = ?w0\<lparr>fs := AList.update ?z (File (Zip True es)) (fs ?w0)\<rparr>"
    and names: "map fst es = map (drop (length (parent ?d)))
           (filter (\<lambda>p. is_file w1 p \<and> name p \<noteq> ''repackage.py'') (rglob w1 ?d))"
    by blast
  from ZipFile_Inr [OF op] have
    w1: "w1 = ?w0\<lparr>fs := AList.update ?z (File (Zip False [])) (fs ?w0), handles := ?z # handles ?w0\<rparr>"
    by simp
  have "entries w' ?z = es" by (simp add: w' entries_update_fs)
  with assms(2) have "a \<in> set (map fst es)" by force
  with names obtain p where p: "p \<in> set (rglob w1 ?d)" "is_file w1 p" "name p \<noteq> ''repackage.py''"
    and a: "a = drop (length (parent ?d)) p" by auto
  have "is_file w' q = is_file w1 q" for q
    by (simp add: w' w1 is_file_def lookup_def update_conv')
  with p a show ?thesis by (auto dest: rglob_below)
qed

text \<open>
  The definitions to unfold when the script is run on a sample input.
\<close>

lemmas model_defs = run_def remove_old_def archive_def zip_path_def script_dir_def skill_name_def
  parent_def name_def joinpath_def exists_def lookup_def ZipFile_def rglob_def reaches_def
  listable_def is_file_def
  relative_to_def ZipFile_write_def zf_write_def close_def unlink_def entries_def finalized_def torn_def

section \<open>The entries of the archive\<close>

text \<open>
  C1 (amended). When the table of the filesystem names every path once and the run
  succeeds, the archive holds, in the order of the walk, one entry for each regular file
  that the walk reaches below the source directory at scan time and whose name is not
  \<^verbatim>\<open>repackage.py\<close>, and nothing else; no entry name occurs twice. \<open>w1\<close> is the world at
  scan time, just after the archive was opened.
\<close>

theorem archive_lists_scanned_files:
  assumes "distinct (map fst (fs w))"
    and "remove_old file w = (Inr (), w0, out0)"
    and "ZipFile w0 (zip_path file) = Inr w1"
    and "run file w = (Inr (), w', out)"
  shows "map Inr (map fst (entries w' (zip_path file)))
           = map (\<lambda>p. relative_to p (parent (script_dir file)))
               (filter (\<lambda>p. is_file w1 p \<and> name p \<noteq> ''repackage.py'') (rglob w1 (script_dir file)))
       \<and> distinct (map fst (entries w' (zip_path file)))"
proof -
  let ?z = "zip_path file" and ?d = "script_dir file"
  let ?k = "length (parent ?d)"
  let ?sel = "filter (\<lambda>p. is_file w1 p \<and> name p \<noteq> ''repackage.py'') (rglob w1 ?d)"
  from remove_old_cases [OF assms(2)] have w0: "w0 = w\<lparr>fs := AList.delete ?z (fs w)\<rparr>" by auto
  from ZipFile_Inr [OF assms(3)] have
    w1: "w1 = w\<lparr>fs := AList.update ?z (File (Zip False [])) (AList.delete ?z (fs w)),
                 handles := ?z # handles w\<rparr>"
    by (simp add: w0)
  from run_success [OF assms(4)] obtain out1 where "archive file w0 = (Inr (), w', out1)"
    by (auto simp: w0)
  from archive_success [OF this] assms(3) obtain es where
    w': "w' = w0\<lparr>fs := AList.update ?z (File (Zip True es)) (fs w0)\<rparr>"
    and names: "map fst es = map (drop ?k) ?sel"
    by auto
  have es: "entries w' ?z = es" by (simp add: w' entries_update_fs)
  have below: "\<forall>p\<in>set ?sel. strict_prefix ?d p" by (auto dest: rglob_below)
  have rel: "map (\<lambda>p. relative_to p (parent ?d)) ps = map Inr (map (drop ?k) ps)"
    if "\<forall>p\<in>set ps. strict_prefix ?d p" for ps
    using that by (induction ps) (auto simp: relative_to_below)
  have g1: "map Inr (map fst (entries w' ?z)) = map (\<lambda>p. relative_to p (parent ?d)) ?sel"
    using names below by (simp add: es rel)
  have "distinct (map fst (fs w1))"
    using assms(1) by (simp add: w1 distinct_update distinct_delete)
  then have "distinct ?sel" by (simp add: rglob_def)
  from distinct_names_below [OF this below] have g2: "distinct (map fst (entries w' ?z))"
    by (simp add: es names)
  from g1 g2 show ?thesis by blast
qed

text \<open>
  The whole tree, and the tree with the subdirectory \<^verbatim>\<open>b\<close> not listable, in which the
  walk reaches \<^verbatim>\<open>a.txt\<close>, \<^verbatim>\<open>b\<close> and the script only.
\<close>

theorem archive_lists_scanned_files_witness:
  "map fst (entries (fst (snd (run debug_py debug_world))) (zip_path debug_py))
     = [[''debug'', ''a.txt''], [''debug'', ''b'', ''c.txt'']]
   \<and> map fst (entries (fst (snd (run debug_py hidden_world))) (zip_path debug_py))
     = [[''debug'', ''a.txt'']]"
proof -
  have one: "map fst (entries (fst (snd (run debug_py wd))) (zip_path debug_py)) = names"
    if a: "distinct (map fst (fs wd))"
      and b: "remove_old debug_py wd = (Inr (), wd, [])"
      and c: "ZipFile wd (zip_path debug_py) = Inr w1"
      and d: "fst (run debug_py wd) = Inr ()"
      and e: "map (\<lambda>p. relative_to p (parent (script_dir debug_py)))
               (filter (\<lambda>p. is_file w1 p \<and> name p \<noteq> ''repackage.py'')
                  (rglob w1 (script_dir debug_py))) = map Inr names"
    for wd w1 names
  proof -
    let ?r = "run debug_py wd"
    from d have r: "?r = (Inr (), fst (snd ?r), snd (snd ?r))"
      by (metis prod.collapse)
    from archive_lists_scanned_files [OF a b c r]
    have "map Inr (map fst (entries (fst (snd ?r)) (zip_path debug_py)))
        = map (\<lambda>p. relative_to p (parent (script_dir debug_py)))
               (filter (\<lambda>p. is_file w1 p \<and> name p \<noteq> ''repackage.py'')
                  (rglob w1 (script_dir debug_py)))"
      by blast
    with e have "map Inr (map fst (entries (fst (snd ?r)) (zip_path debug_py)))
        = (map Inr names :: (error + path) list)"
      by (simp only:)
    then show ?thesis by (rule map_injective) simp
  qed
  let ?z = "[''srv'', ''debug.zip'']"
  have "map fst (entries (fst (snd (run debug_py debug_world))) (zip_path debug_py))
     = [[''debug'', ''a.txt''], [''debug'', ''b'', ''c.txt'']]"
    by (rule one [where ?w1.0 = "debug_world\<lparr>fs := fs debug_world @ [(?z, File (Zip False []))],
                      handles := [?z]\<rparr>"])
      (simp_all add: debug_world_def debug_py_def model_defs)
  moreover
  have "map fst (entries (fst (snd (run debug_py hidden_world))) (zip_path debug_py))
     = [[''debug'', ''a.txt'']]"
    by (rule one [where ?w1.0 = "hidden_world\<lparr>fs := fs hidden_world @ [(?z, File (Zip False []))],
                      handles := [?z]\<rparr>"])
      (simp_all add: hidden_world_def debug_world_def debug_py_def model_defs)
  ultimately show ?thesis by blast
qed

text \<open>
  C1 fails as stated. The nested \<^verbatim>\<open>/srv/debug/b/repackage.py\<close> is a regular file below
  the source directory and is not the script, yet it has no entry; and with the
  subdirectory \<^verbatim>\<open>b\<close> not listable the run succeeds without an entry for \<^verbatim>\<open>b/c.txt\<close>.
\<close>

theorem namesake_and_unreached_files_missing:
  "fst (run debug_py debug_world) = Inr ()
   \<and> is_file debug_world [''srv'', ''debug'', ''b'', ''repackage.py'']
   \<and> [''srv'', ''debug'', ''b'', ''repackage.py''] \<noteq> debug_py
   \<and> relative_to [''srv'', ''debug'', ''b'', ''repackage.py''] (parent (script_dir debug_py))
       = Inr [''debug'', ''b'', ''repackage.py'']
   \<and> [''debug'', ''b'', ''repackage.py'']
       \<notin> fst ` set (entries (fst (snd (run debug_py debug_world))) (zip_path debug_py))
   \<and> fst (run debug_py hidden_world) = Inr ()
   \<and> is_file hidden_world [''srv'', ''debug'', ''b'', ''c.txt'']
   \<and> name [''srv'', ''debug'', ''b'', ''c.txt''] \<noteq> ''repackage.py''
   \<and> relative_to [''srv'', ''debug'', ''b'', ''c.txt''] (parent (script_dir debug_py))
       = Inr [''debug'', ''b'', ''c.txt'']
   \<and> [''debug'', ''b'', ''c.txt'']
       \<notin> fst ` set (entries (fst (snd (run debug_py hidden_world))) (zip_path debug_py))"
  by (simp add: hidden_world_def debug_world_def debug_py_def model_defs)

text \<open>
  C2, on the usage of the docstring. The docstring announces \<^verbatim>\<open>../debug.zip\<close>, an
  archive beside the directory \<^verbatim>\<open>debug\<close> whose entries are named \<^verbatim>\<open>debug/...\<close>. With the
  relative \<^verbatim>\<open>__file__\<close>, line 15 gives the source directory \<^verbatim>\<open>.\<close>, which has no base
  name: the run succeeds, the entry of \<^verbatim>\<open>a.txt\<close> is named \<^verbatim>\<open>a.txt\<close> with no directory
  before it, and extraction into a target puts the file directly below the target.
\<close>

theorem usage_entry_lacks_directory_name:
  "script_dir usage_py = []
   \<and> name (script_dir usage_py) = []
   \<and> fst (run usage_py usage_world) = Inr ()
   \<and> relative_to [''a.txt''] (parent (script_dir usage_py)) = Inr [''a.txt'']
   \<and> ([''a.txt''], Bytes ''A'')
       \<in> set (entries (fst (snd (run usage_py usage_world))) (zip_path usage_py))
   \<and> ([''tmp'', ''a.txt''], Bytes ''A'')
       \<in> set (extractall [''tmp'']
                (entries (fst (snd (run usage_py usage_world))) (zip_path usage_py)))"
  by (simp add: extractall_def usage_world_def usage_py_def model_defs)

text \<open>
  C3. Exclusion looks at the base name only. After a successful run, a regular file below
  the source directory whose name is \<^verbatim>\<open>repackage.py\<close> has no entry, at whatever depth it
  lies and whether or not it is the script; and no entry at all ends in that name.
\<close>

theorem excluded_by_name:
  assumes "run file w = (Inr (), w', out)"
    and "is_file w p" and "strict_prefix (script_dir file) p"
    and "name p = ''repackage.py''"
  shows "relative_to p (parent (script_dir file)) = Inr (drop (length (parent (script_dir file))) p)
       \<and> drop (length (parent (script_dir file))) p \<notin> fst ` set (entries w' (zip_path file))
       \<and> (\<forall>a\<in>fst ` set (entries w' (zip_path file)). name a \<noteq> ''repackage.py'')"
proof -
  let ?d = "script_dir file"
  let ?k = "length (parent ?d)"
  have no: "name a \<noteq> ''repackage.py''" if "a \<in> fst ` set (entries w' (zip_path file))" for a
  proof -
    from that obtain c where "(a, c) \<in> set (entries w' (zip_path file))" by auto
    from entry_source [OF assms(1) this] obtain q where
      q: "name q \<noteq> ''repackage.py''" "strict_prefix ?d q" "a = drop ?k q" by blast
    with name_drop_below [OF q(2)] show ?thesis by simp
  qed
  have "name (drop ?k p) = ''repackage.py''"
    using name_drop_below [OF assms(3)] assms(4) by simp
  with no have "drop ?k p \<notin> fst ` set (entries w' (zip_path file))" by blast
  with no relative_to_below [OF assms(3)] show ?thesis by blast
qed

text \<open>
  The nested file \<^verbatim>\<open>/srv/debug/b/repackage.py\<close> is not the script and is left out.
\<close>

theorem excluded_by_name_witness:
  "[''srv'', ''debug'', ''b'', ''repackage.py''] \<noteq> debug_py
   \<and> is_file debug_world [''srv'', ''debug'', ''b'', ''repackage.py'']
   \<and> [''debug'', ''b'', ''repackage.py'']
        \<notin> fst ` set (entries (fst (snd (run debug_py debug_world))) (zip_path debug_py))"
proof -
  let ?p = "[''srv'', ''debug'', ''b'', ''repackage.py'']"
  obtain w' out where a: "run debug_py debug_world = (Inr (), w', out)"
    by (simp add: debug_world_def debug_py_def model_defs)
  have b: "is_file debug_world ?p" by (simp add: debug_world_def model_defs)
  have c: "strict_prefix (script_dir debug_py) ?p" by (simp add: debug_py_def model_defs)
  have d: "name ?p = ''repackage.py''" by (simp add: name_def)
  have k: "drop (length (parent (script_dir debug_py))) ?p = [''debug'', ''b'', ''repackage.py'']"
    by (simp add: debug_py_def model_defs)
  from excluded_by_name [OF a b c d] a b k show ?thesis
    by (simp add: debug_py_def)
qed

section \<open>The destination and repeated runs\<close>

text \<open>
  C4. The destination is the parent of the source directory joined with the base name of
  the source directory followed by \<^verbatim>\<open>.zip\<close>. Every run either stops at the failed
  deletion of what exists there, with the filesystem untouched and no archive opened, or
  executes the \<^verbatim>\<open>with\<close> statement in the world from which the destination has been
  deleted, so \<^verbatim>\<open>ZipFile\<close> opens a path at which nothing exists.
\<close>

theorem old_archive_removed_first:
  assumes "run file w = (r, w', out)"
  shows "zip_path file = joinpath (parent (script_dir file)) (name (script_dir file) @ ''.zip'')
       \<and> ((\<exists>e. exists w (zip_path file) \<and> unlink w (zip_path file) = Inl e \<and> r = Inl e \<and> w' = w)
          \<or> (\<exists>w0 out1. w0 = w\<lparr>fs := AList.delete (zip_path file) (fs w)\<rparr>
                \<and> (exists w (zip_path file) \<longrightarrow> unlink w (zip_path file) = Inr w0)
                \<and> \<not> exists w0 (zip_path file)
                \<and> archive file w0 = (r, w', out1)))"
proof -
  let ?z = "zip_path file"
  let ?w0 = "w\<lparr>fs := AList.delete ?z (fs w)\<rparr>"
  have g1: "?z = joinpath (parent (script_dir file)) (name (script_dir file) @ ''.zip'')"
    by (simp add: zip_path_def skill_name_def)
  from run_cases [OF assms] show ?thesis
  proof
    assume "\<exists>e out0. r = Inl e \<and> remove_old file w = (Inl e, w', out0)"
    then obtain e out0 where r: "r = Inl e" and ro: "remove_old file w = (Inl e, w', out0)"
      by blast
    from remove_old_cases [OF ro] have "exists w ?z \<and> unlink w ?z = Inl e \<and> w' = w" by auto
    with r g1 show ?thesis by blast
  next
    assume "\<exists>w0 out0 out1. remove_old file w = (Inr (), w0, out0) \<and> archive file w0 = (r, w', out1)"
    then obtain w0 out0 out1 where ro: "remove_old file w = (Inr (), w0, out0)"
      and ar: "archive file w0 = (r, w', out1)" by blast
    from remove_old_cases [OF ro] have w0: "w0 = ?w0" by auto
    have un: "unlink w ?z = Inr ?w0" if "exists w ?z"
    proof (cases "unlink w ?z")
      case (Inl e)
      with that ro show ?thesis by (simp add: remove_old_def)
    next
      case (Inr w1)
      with unlink_Inr [OF Inr] show ?thesis by simp
    qed
    from un ar w0 not_exists_delete [where w = w and p = "?z"] g1 show ?thesis by blast
  qed
qed

theorem old_archive_removed_first_witness:
  "exists stale_world (zip_path debug_py)
   \<and> zip_path debug_py = [''srv'', ''debug.zip'']
   \<and> (\<exists>w0. unlink stale_world (zip_path debug_py) = Inr w0
         \<and> \<not> exists w0 (zip_path debug_py)
         \<and> fst (archive debug_py w0) = fst (run debug_py stale_world)
         \<and> fst (snd (archive debug_py w0)) = fst (snd (run debug_py stale_world)))"
proof -
  let ?r = "run debug_py stale_world"
  have r: "?r = (fst ?r, fst (snd ?r), snd (snd ?r))" by simp
  have ex: "exists stale_world (zip_path debug_py)"
    by (simp add: stale_world_def debug_world_def debug_py_def model_defs)
  have ok: "\<forall>e. unlink stale_world (zip_path debug_py) \<noteq> Inl e"
    by (simp add: stale_world_def debug_world_def debug_py_def model_defs)
  have z: "zip_path debug_py = [''srv'', ''debug.zip'']"
    by (simp add: debug_py_def model_defs)
  from old_archive_removed_first [OF r] ex ok z show ?thesis by auto
qed

text \<open>
  C5. A second run on the world that a run has left ends as the first one did and leaves
  the very same world: the archive of the first run is deleted and written again with the
  same entries and the same bytes, so the second run succeeds whenever the first one did.
  (Timestamps are not modelled.)
\<close>

theorem second_run_same_archive:
  assumes "run file w = (r, w1, out1)"
  shows "fst (run file w1) = r
       \<and> fst (snd (run file w1)) = w1
       \<and> entries (fst (snd (run file w1))) (zip_path file) = entries w1 (zip_path file)"
proof -
  let ?z = "zip_path file"
  have "fst (run file w1) = r \<and> fst (snd (run file w1)) = w1"
    using run_cases [OF assms]
  proof (elim disjE exE conjE)
    fix e out0
    assume r: "r = Inl e" and ro: "remove_old file w = (Inl e, w1, out0)"
    from remove_old_cases [OF ro] have "w1 = w" by auto
    with ro r show ?thesis by (simp add: run_def)
  next
    fix w0 out0 o1
    assume ro: "remove_old file w = (Inr (), w0, out0)" and ar: "archive file w0 = (r, w1, o1)"
    from remove_old_cases [OF ro] have w0: "w0 = w\<lparr>fs := AList.delete ?z (fs w)\<rparr>" by auto
    then have absent: "\<not> exists w0 ?z" by (simp add: not_exists_delete)
    from archive_cases [OF ar] show ?thesis
    proof (elim disjE exE conjE)
      fix e
      assume "r = Inl e" "ZipFile w0 ?z = Inl e" "w1 = w0"
      with absent ar show ?thesis by (simp add: run_def remove_old_def)
    next
      fix wz c
      assume op: "ZipFile w0 ?z = Inr wz"
        and w1: "w1 = w0\<lparr>fs := AList.update ?z (File c) (fs w0)\<rparr>"
      from ZipFile_Inr [OF op] absent have nw: "parent ?z \<notin> set (no_write w0)" by simp
      have ex: "exists w1 ?z" by (simp add: w1 exists_def lookup_def update_conv')
      have "w0\<lparr>fs := AList.delete ?z (fs w0)\<rparr> = w0" using absent by (rule delete_absent)
      with unlink_left_archive [OF nw] have "unlink w1 ?z = Inr w0" by (simp add: w1)
      with ex have "remove_old file w1 = (Inr (), w0, [Removed_old (name ?z)])"
        by (simp add: remove_old_def)
      from run_after_remove_old [OF this] ar show ?thesis by simp
    qed
  qed
  then show ?thesis by simp
qed

theorem second_run_same_archive_witness:
  "fst (run debug_py debug_world) = Inr ()
   \<and> fst (run debug_py (fst (snd (run debug_py debug_world)))) = Inr ()
   \<and> entries (fst (snd (run debug_py (fst (snd (run debug_py debug_world)))))) (zip_path debug_py)
       = [([''debug'', ''a.txt''], Bytes ''A''), ([''debug'', ''b'', ''c.txt''], Bytes ''C'')]"
proof -
  let ?r = "run debug_py debug_world"
  have r: "?r = (Inr (), fst (snd ?r), snd (snd ?r))"
    by (simp add: debug_world_def debug_py_def model_defs)
  have e: "entries (fst (snd ?r)) (zip_path debug_py)
      = [([''debug'', ''a.txt''], Bytes ''A''), ([''debug'', ''b'', ''c.txt''], Bytes ''C'')]"
    by (simp add: debug_world_def debug_py_def model_defs)
  have s: "fst ?r = Inr ()" by (subst r) simp
  from second_run_same_archive [OF r] e s show ?thesis by simp
qed

section \<open>Round trip\<close>

lemma canonical_drop:
  "canonical p \<Longrightarrow> filter (\<lambda>s. s \<noteq> [] \<and> s \<noteq> ''.'' \<and> s \<noteq> ''..'') (drop k p) = drop k p"
  by (auto simp: canonical_def list_all_iff filter_id_conv dest: in_set_dropD)

lemma extract_packed:
  assumes "\<forall>p\<in>fst ` set tbl. canonical p"
    and "\<And>p. R p \<Longrightarrow> strict_prefix (script_dir file) p"
  shows "extractall target
     (concat (map (\<lambda>(p, n). if R p then packed file p (Some n) else []) tbl))
   = map (\<lambda>(p, c). (target @ drop (length (parent (script_dir file))) p, c))
       (filter (\<lambda>(p, c). R p \<and> name p \<noteq> ''repackage.py'')
          (concat (map (\<lambda>(p, n). case n of
                    File c \<Rightarrow> if strict_prefix (script_dir file) p then [(p, c)] else []
                  | _ \<Rightarrow> []) tbl)))"
  using assms(1)
proof (induction tbl)
  case Nil
  show ?case by (simp add: extractall_def)
next
  case (Cons x tbl)
  obtain p n where x: "x = (p, n)" by (cases x)
  from Cons.prems x have "canonical p" by simp
  then have strip: "filter (\<lambda>s. s \<noteq> [] \<and> s \<noteq> ''.'' \<and> s \<noteq> ''..'')
      (drop (length (parent (script_dir file))) p) = drop (length (parent (script_dir file))) p"
    by (rule canonical_drop)
  from Cons.prems have "\<forall>p\<in>fst ` set tbl. canonical p" by simp
  from Cons.IH [OF this] have IH: "extractall target
     (concat (map (\<lambda>(p, n). if R p then packed file p (Some n) else []) tbl))
   = map (\<lambda>(p, c). (target @ drop (length (parent (script_dir file))) p, c))
       (filter (\<lambda>(p, c). R p \<and> name p \<noteq> ''repackage.py'')
          (concat (map (\<lambda>(p, n). case n of
                    File c \<Rightarrow> if strict_prefix (script_dir file) p then [(p, c)] else []
                  | _ \<Rightarrow> []) tbl)))" .
  have app: "extractall target (xs @ ys) = extractall target xs @ extractall target ys"
    for xs ys by (simp add: extractall_def)
  have one: "extractall target [(a, c)]
      = [(target @ filter (\<lambda>s. s \<noteq> [] \<and> s \<noteq> ''.'' \<and> s \<noteq> ''..'') a, c)]" for a c
    by (simp add: extractall_def)
  have none: "extractall target [] = []" by (simp add: extractall_def)
  show ?case
    using assms(2) [of p] strip
    by (cases n) (auto simp: x app one none IH packed_def)
qed

lemma tree_files_below: "(p, c) \<in> set (tree_files w d) \<Longrightarrow> strict_prefix d p"
  by (auto simp: tree_files_def split: node.splits if_splits)

text \<open>
  C6 (amended). Take a source directory that has a base name and no \<^verbatim>\<open>..\<close> in its path,
  in a filesystem whose table names every path once, by its components. When the run
  succeeds, extracting the archive into a target creates exactly the regular files of the
  tree before the run that the walk reaches and whose name is not \<^verbatim>\<open>repackage.py\<close>,
  each below the target at its path relative to the parent of the source directory and
  with the same bytes; extracted into the parent of the source directory they are those
  files at their original paths.
\<close>

theorem extraction_restores_tree:
  assumes "distinct (map fst (fs w))"
    and "\<forall>p\<in>fst ` set (fs w). canonical p"
    and "script_dir file \<noteq> []"
    and "canonical (script_dir file)"
    and "run file w = (Inr (), w', out)"
  shows "extractall target (entries w' (zip_path file))
           = map (\<lambda>(p, c). (target @ drop (length (parent (script_dir file))) p, c))
               (filter (\<lambda>(p, c). reaches w (script_dir file) p \<and> name p \<noteq> ''repackage.py'')
                  (tree_files w (script_dir file)))
       \<and> extractall (parent (script_dir file)) (entries w' (zip_path file))
           = filter (\<lambda>(p, c). reaches w (script_dir file) p \<and> name p \<noteq> ''repackage.py'')
               (tree_files w (script_dir file))"
proof -
  let ?z = "zip_path file" and ?d = "script_dir file"
  let ?k = "length (parent ?d)"
  let ?w0 = "w\<lparr>fs := AList.delete ?z (fs w)\<rparr>"
  let ?kept = "filter (\<lambda>(p, c). reaches w ?d p \<and> name p \<noteq> ''repackage.py'') (tree_files w ?d)"
  from run_success [OF assms(5)] obtain o1 where ar: "archive file ?w0 = (Inr (), w', o1)"
    by blast
  from archive_success [OF ar] obtain w1 es where op: "ZipFile ?w0 ?z = Inr w1"
    and w': "w' = ?w0\<lparr>fs := AList.update ?z (File (Zip True es)) (fs ?w0)\<rparr>"
    and conts: "?z \<notin> set (rglob w1 ?d) \<longrightarrow> es = concat (map (\<lambda>p. packed file p (lookup w1 p)) (rglob w1 ?d))"
    by blast
  from ZipFile_Inr [OF op] have
    w1: "w1 = w\<lparr>fs := AList.update ?z (File (Zip False [])) (AList.delete ?z (fs w)),
                 handles := ?z # handles w\<rparr>"
    by simp
  have nb: "\<not> strict_prefix ?d ?z" by (rule zip_path_not_below [OF assms(3)])
  have r: "rglob w1 ?d = rglob w ?d"
    unfolding w1 by (rule rglob_scan_time [OF assms(3)])
  have "?z \<notin> set (rglob w1 ?d)" using nb by (auto dest: rglob_below)
  with conts have "es = concat (map (\<lambda>p. packed file p (lookup w1 p)) (rglob w1 ?d))"
    by blast
  then have e1: "es = concat (map (\<lambda>p. packed file p (lookup w1 p)) (rglob w ?d))"
    by (simp only: r)
  have "map (\<lambda>p. packed file p (lookup w1 p)) (rglob w ?d)
      = map (\<lambda>p. packed file p (lookup w p)) (rglob w ?d)"
  proof (intro map_cong refl)
    fix p assume "p \<in> set (rglob w ?d)"
    then have "strict_prefix ?d p" by (rule rglob_below)
    with nb have "p \<noteq> ?z" by auto
    then have "lookup w1 p = lookup w p" by (simp add: w1 lookup_scan_time)
    then show "packed file p (lookup w1 p) = packed file p (lookup w p)" by simp
  qed
  with e1 have "es = concat (map (\<lambda>p. packed file p (lookup w p)) (rglob w ?d))"
    by (simp only:)
  then have "es = concat (map (\<lambda>p. packed file p (map_of (fs w) p))
      (filter (reaches w ?d) (map fst (fs w))))"
    by (simp only: rglob_def lookup_def)
  also have "\<dots> = concat (map (\<lambda>(p, n). if reaches w ?d p then packed file p (Some n) else []) (fs w))"
    by (rule concat_filter_keys [OF assms(1)])
  finally have es: "entries w' ?z
      = concat (map (\<lambda>(p, n). if reaches w ?d p then packed file p (Some n) else []) (fs w))"
    by (simp add: w' entries_update_fs)
  have below: "strict_prefix ?d p" if "reaches w ?d p" for p
    using that by (simp add: reaches_def)
  have g1: "extractall target (entries w' ?z) = map (\<lambda>(p, c). (target @ drop ?k p, c)) ?kept" for target
    unfolding es tree_files_def by (rule extract_packed [OF assms(2) below])
  have "map (\<lambda>(p, c). (parent ?d @ drop ?k p, c)) ?kept = map (\<lambda>x. x) ?kept"
  proof (intro map_cong refl)
    fix x assume "x \<in> set ?kept"
    then obtain p c where x: "x = (p, c)" and "(p, c) \<in> set (tree_files w ?d)" by auto
    from tree_files_below [OF this(2)] have "parent ?d @ drop ?k p = p"
      by (rule parent_append_below)
    with x show "(case x of (p, c) \<Rightarrow> (parent ?d @ drop ?k p, c)) = x" by simp
  qed
  with g1 [of "parent ?d"] have g2: "extractall (parent ?d) (entries w' ?z) = ?kept" by simp
  from g1 g2 show ?thesis by blast
qed

theorem extraction_restores_tree_witness:
  "extractall (parent (script_dir debug_py))
      (entries (fst (snd (run debug_py debug_world))) (zip_path debug_py))
     = [([''srv'', ''debug'', ''a.txt''], Bytes ''A''),
        ([''srv'', ''debug'', ''b'', ''c.txt''], Bytes ''C'')]"
proof -
  let ?r = "run debug_py debug_world"
  have a: "distinct (map fst (fs debug_world))" by (simp add: debug_world_def)
  have k: "\<forall>p\<in>fst ` set (fs debug_world). canonical p"
    by (simp add: debug_world_def canonical_def)
  have b: "script_dir debug_py \<noteq> []" by (simp add: debug_py_def model_defs)
  have l: "canonical (script_dir debug_py)"
    by (simp add: debug_py_def canonical_def model_defs)
  have c: "?r = (Inr (), fst (snd ?r), snd (snd ?r))"
    by (simp add: debug_world_def debug_py_def model_defs)
  have "filter (\<lambda>(p, c). reaches debug_world (script_dir debug_py) p \<and> name p \<noteq> ''repackage.py'')
       (tree_files debug_world (script_dir debug_py))
     = [([''srv'', ''debug'', ''a.txt''], Bytes ''A''),
        ([''srv'', ''debug'', ''b'', ''c.txt''], Bytes ''C'')]"
    by (simp add: tree_files_def debug_world_def debug_py_def model_defs)
  with extraction_restores_tree [OF a k b l c, of "[]", THEN conjunct2] show ?thesis
    by (simp only:)
qed

text \<open>
  C6 fails as stated. With the subdirectory \<^verbatim>\<open>b\<close> not listable the run succeeds and
  extraction does not bring back \<^verbatim>\<open>b/c.txt\<close>, a file of the original tree; and the
  nested \<^verbatim>\<open>b/repackage.py\<close>, which is not the script, is not brought back either.
\<close>

theorem unreached_and_namesake_files_not_restored:
  "fst (run debug_py hidden_world) = Inr ()
   \<and> ([''srv'', ''debug'', ''b'', ''c.txt''], Bytes ''C'')
       \<in> set (tree_files hidden_world (script_dir debug_py))
   \<and> [''srv'', ''debug'', ''b'', ''c.txt'']
       \<notin> fst ` set (extractall (parent (script_dir debug_py))
            (entries (fst (snd (run debug_py hidden_world))) (zip_path debug_py)))
   \<and> fst (run debug_py debug_world) = Inr ()
   \<and> ([''srv'', ''debug'', ''b'', ''repackage.py''], Bytes ''Q'')
       \<in> set (tree_files debug_world (script_dir debug_py))
   \<and> [''srv'', ''debug'', ''b'', ''repackage.py''] \<noteq> debug_py
   \<and> [''srv'', ''debug'', ''b'', ''repackage.py'']
       \<notin> fst ` set (extractall (parent (script_dir debug_py))
            (entries (fst (snd (run debug_py debug_world))) (zip_path debug_py)))"
  by (simp add: tree_files_def extractall_def hidden_world_def debug_world_def debug_py_def
      model_defs)

section \<open>Error paths\<close>

text \<open>
  C7 (amended). No exception is caught or retried: when the deletion of the old archive
  raises, or the opening of the new archive raises, or the write of some file of the walk
  raises after the files before it were added, the run ends with that very exception and
  the exit status is 1.
\<close>

theorem errors_propagate:
  assumes "(exists w (zip_path file) \<and> unlink w (zip_path file) = Inl e)
      \<or> (\<exists>w0 out0. remove_old file w = (Inr (), w0, out0)
            \<and> ZipFile w0 (zip_path file) = Inl e)
      \<or> (\<exists>w0 out0 w1 before p after wi outi a.
            remove_old file w = (Inr (), w0, out0)
            \<and> ZipFile w0 (zip_path file) = Inr w1
            \<and> rglob w1 (script_dir file) = before @ p # after
            \<and> loop file before w1 = (Inr (), wi, outi)
            \<and> is_file wi p \<and> name p \<noteq> ''repackage.py''
            \<and> relative_to p (parent (script_dir file)) = Inr a
            \<and> zf_write wi (zip_path file) p a = Inl e)"
  shows "fst (run file w) = Inl e \<and> exit_status (run file w) = 1"
proof -
  let ?z = "zip_path file"
  have "fst (run file w) = Inl e"
    using assms
  proof (elim disjE conjE exE)
    assume "exists w ?z" "unlink w ?z = Inl e"
    then show ?thesis by (simp add: run_def remove_old_def)
  next
    fix w0 out0
    assume "remove_old file w = (Inr (), w0, out0)" "ZipFile w0 ?z = Inl e"
    then show ?thesis by (simp add: run_def archive_def)
  next
    fix w0 out0 w1 before p after wi outi a
    assume ro: "remove_old file w = (Inr (), w0, out0)"
      and op: "ZipFile w0 ?z = Inr w1"
      and walk: "rglob w1 (script_dir file) = before @ p # after"
      and lp: "loop file before w1 = (Inr (), wi, outi)"
      and sel: "is_file wi p" "name p \<noteq> ''repackage.py''"
      and rel: "relative_to p (parent (script_dir file)) = Inr a"
      and wr: "zf_write wi ?z p a = Inl e"
    from zf_write_Inl [OF wr] obtain wl where
      wl: "ZipFile_write wi ?z p a = (Inl e, wl)" by blast
    from loop_write_raises [OF lp sel rel wl] walk
    have raised: "fst (loop file (rglob w1 (script_dir file)) w1) = Inl e" by simp
    obtain r w' out1 where ar: "archive file w0 = (r, w', out1)"
      by (cases "archive file w0") auto
    from archive_cases [OF ar] op have "r = fst (loop file (rglob w1 (script_dir file)) w1)"
      by auto
    with raised ar have "fst (archive file w0) = Inl e" by simp
    with run_after_remove_old [OF ro] show ?thesis by simp
  qed
  then show ?thesis by (simp add: exit_status_def)
qed

text \<open>
  A destination directory that is not writable, and a file that cannot be read.
\<close>

theorem errors_propagate_witness:
  "ZipFile readonly_world (zip_path debug_py) = Inl PermissionError
   \<and> fst (run debug_py readonly_world) = Inl PermissionError
   \<and> exit_status (run debug_py readonly_world) = 1
   \<and> [''srv'', ''debug'', ''b'', ''c.txt''] \<in> set (no_read locked_world)
   \<and> fst (run debug_py locked_world) = Inl PermissionError
   \<and> exit_status (run debug_py locked_world) = 1"
proof -
  have a: "remove_old debug_py readonly_world = (Inr (), readonly_world, [])"
    by (simp add: readonly_world_def debug_world_def debug_py_def model_defs)
  have b: "ZipFile readonly_world (zip_path debug_py) = Inl PermissionError"
    by (simp add: readonly_world_def debug_world_def debug_py_def model_defs)
  from a b have "\<exists>w0 out0. remove_old debug_py readonly_world = (Inr (), w0, out0)
            \<and> ZipFile w0 (zip_path debug_py) = Inl PermissionError" by blast
  then have ro: "fst (run debug_py readonly_world) = Inl PermissionError
       \<and> exit_status (run debug_py readonly_world) = 1"
    by (intro errors_propagate) blast
  let ?z = "[''srv'', ''debug.zip'']"
  let ?w1 = "locked_world\<lparr>fs := fs locked_world @ [(?z, File (Zip False []))],
      handles := [?z]\<rparr>"
  let ?wi = "locked_world\<lparr>fs := fs locked_world
      @ [(?z, File (Zip False [([''debug'', ''a.txt''], Bytes ''A'')]))], handles := [?z]\<rparr>"
  let ?p = "[''srv'', ''debug'', ''b'', ''c.txt'']"
  have c: "remove_old debug_py locked_world = (Inr (), locked_world, [])"
    by (simp add: locked_world_def debug_world_def debug_py_def model_defs)
  have d: "ZipFile locked_world (zip_path debug_py) = Inr ?w1"
    by (simp add: locked_world_def debug_world_def debug_py_def model_defs)
  have e: "rglob ?w1 (script_dir debug_py)
      = [[''srv'', ''debug'', ''a.txt''], [''srv'', ''debug'', ''b'']] @ ?p
          # [[''srv'', ''debug'', ''b'', ''repackage.py''], [''srv'', ''debug'', ''repackage.py'']]"
    by (simp add: locked_world_def debug_world_def debug_py_def model_defs)
  have f: "loop debug_py [[''srv'', ''debug'', ''a.txt''], [''srv'', ''debug'', ''b'']] ?w1
      = (Inr (), ?wi, [Added [''debug'', ''a.txt'']])"
    by (simp add: locked_world_def debug_world_def debug_py_def model_defs)
  have g: "is_file ?wi ?p" "name ?p \<noteq> ''repackage.py''"
    "relative_to ?p (parent (script_dir debug_py)) = Inr [''debug'', ''b'', ''c.txt'']"
    "zf_write ?wi (zip_path debug_py) ?p [''debug'', ''b'', ''c.txt''] = Inl PermissionError"
    by (simp_all add: locked_world_def debug_world_def debug_py_def model_defs)
  have h: "?p \<in> set (no_read locked_world)" by (simp add: locked_world_def)
  from c d e f g have "\<exists>w0 out0 w1 before p after wi outi a.
            remove_old debug_py locked_world = (Inr (), w0, out0)
            \<and> ZipFile w0 (zip_path debug_py) = Inr w1
            \<and> rglob w1 (script_dir debug_py) = before @ p # after
            \<and> loop debug_py before w1 = (Inr (), wi, outi)
            \<and> is_file wi p \<and> name p \<noteq> ''repackage.py''
            \<and> relative_to p (parent (script_dir debug_py)) = Inr a
            \<and> zf_write wi (zip_path debug_py) p a = Inl PermissionError"
    by blast
  then have "fst (run debug_py locked_world) = Inl PermissionError
       \<and> exit_status (run debug_py locked_world) = 1"
    by (intro errors_propagate) blast
  with ro b h show ?thesis by blast
qed

text \<open>
  C7 fails as stated for a source directory that is missing or cannot be listed: no call
  raises, the walk yields nothing, an empty archive is written and the exit status is 0.
\<close>

theorem unwalkable_source_directory_succeeds:
  "\<not> exists bare_world (script_dir debug_py)
   \<and> fst (run debug_py bare_world) = Inr ()
   \<and> exit_status (run debug_py bare_world) = 0
   \<and> script_dir debug_py \<in> set (no_read unlisted_world)
   \<and> fst (run debug_py unlisted_world) = Inr ()
   \<and> exit_status (run debug_py unlisted_world) = 0
   \<and> entries (fst (snd (run debug_py unlisted_world))) (zip_path debug_py) = []"
  by (simp add: bare_world_def unlisted_world_def debug_world_def debug_py_def exit_status_def
      model_defs)

text \<open>
  C8 (amended). Once \<^verbatim>\<open>ZipFile\<close> has returned, the handle is open; whatever the outcome
  of the loop, an exception included, the run ends with that outcome and with the handles
  it started with: the handle is always released. The archive at the destination is
  finalized unless a write to it has failed in the loop: then the file stays cut short,
  without closing records, and the run ends with the error of the write.
\<close>

theorem archive_handle_always_released:
  assumes "remove_old file w = (Inr (), w0, out0)"
    and "ZipFile w0 (zip_path file) = Inr w1"
    and "run file w = (r, w', out)"
  shows "zip_path file \<in> set (handles w1)
       \<and> r = fst (loop file (rglob w1 (script_dir file)) w1)
       \<and> handles w' = handles w
       \<and> torn w' (zip_path file)
           = torn (fst (snd (loop file (rglob w1 (script_dir file)) w1))) (zip_path file)
       \<and> finalized w' (zip_path file) = (\<not> torn w' (zip_path file))
       \<and> (torn w' (zip_path file) \<longrightarrow> r = Inl OSError)"
proof -
  let ?z = "zip_path file"
  let ?l = "loop file (rglob w1 (script_dir file)) w1"
  from ZipFile_Inr [OF assms(2)] have g1: "?z \<in> set (handles w1)" by simp
  from run_after_remove_old [OF assms(1)] assms(3) obtain out1 where
    ar: "archive file w0 = (r, w', out1)" by (cases "archive file w0") auto
  have h: "handles w0 = handles w" by (rule remove_old_handles [OF assms(1)])
  from archive_opened [OF assms(2) ar] obtain rl w2 where lp: "?l = (rl, w2, out1)"
    and cases: "(\<exists>es. w2 = w1\<lparr>fs := AList.update ?z (File (Zip False es)) (fs w1)\<rparr>
                \<and> w' = w0\<lparr>fs := AList.update ?z (File (Zip True es)) (fs w0)\<rparr>
                \<and> r = rl)
          \<or> (\<exists>es. w2 = w1\<lparr>fs := AList.update ?z (File (Torn es)) (fs w1)\<rparr>
                \<and> w' = w0\<lparr>fs := AList.update ?z (File (Torn es)) (fs w0)\<rparr>
                \<and> rl = Inl OSError \<and> r = Inl OSError)"
    by blast
  from cases show ?thesis
  proof (elim disjE exE conjE)
    fix es
    assume w2: "w2 = w1\<lparr>fs := AList.update ?z (File (Zip False es)) (fs w1)\<rparr>"
      and w': "w' = w0\<lparr>fs := AList.update ?z (File (Zip True es)) (fs w0)\<rparr>"
      and r: "r = rl"
    have "\<not> torn w' ?z" "\<not> torn w2 ?z" "finalized w' ?z" "handles w' = handles w"
      by (simp_all add: w' w2 torn_update_fs finalized_update_fs h)
    with g1 lp r show ?thesis by simp
  next
    fix es
    assume w2: "w2 = w1\<lparr>fs := AList.update ?z (File (Torn es)) (fs w1)\<rparr>"
      and w': "w' = w0\<lparr>fs := AList.update ?z (File (Torn es)) (fs w0)\<rparr>"
      and r: "rl = Inl OSError" "r = Inl OSError"
    have "torn w' ?z" "torn w2 ?z" "\<not> finalized w' ?z" "handles w' = handles w"
      by (simp_all add: w' w2 torn_update_fs h)
    with g1 lp r show ?thesis by simp
  qed
qed

text \<open>
  Two error paths: \<^verbatim>\<open>b/c.txt\<close> cannot be read, and \<^verbatim>\<open>b/c.txt\<close> does not fit into the
  archive file.
\<close>

theorem archive_handle_always_released_witness:
  "fst (run debug_py locked_world) = Inl PermissionError
   \<and> handles (fst (snd (run debug_py locked_world))) = handles locked_world
   \<and> finalized (fst (snd (run debug_py locked_world))) (zip_path debug_py)
   \<and> fst (run debug_py full_world) = Inl OSError
   \<and> handles (fst (snd (run debug_py full_world))) = handles full_world
   \<and> \<not> finalized (fst (snd (run debug_py full_world))) (zip_path debug_py)"
proof -
  let ?z = "[''srv'', ''debug.zip'']"
  have one: "fst (run debug_py wd) = e
      \<and> handles (fst (snd (run debug_py wd))) = handles wd
      \<and> finalized (fst (snd (run debug_py wd))) (zip_path debug_py) = (\<not> t)"
    if a: "remove_old debug_py wd = (Inr (), wd, [])"
      and b: "ZipFile wd (zip_path debug_py) = Inr w1"
      and d: "fst (loop debug_py (rglob w1 (script_dir debug_py)) w1) = e"
      and t: "torn (fst (snd (loop debug_py (rglob w1 (script_dir debug_py)) w1))) (zip_path debug_py) = t"
    for wd w1 e t
  proof -
    let ?r = "run debug_py wd"
    have c: "?r = (fst ?r, fst (snd ?r), snd (snd ?r))" by simp
    note released = archive_handle_always_released [OF a b c]
    from released have "fst ?r = fst (loop debug_py (rglob w1 (script_dir debug_py)) w1)"
      by blast
    with d have g1: "fst ?r = e" by (simp only:)
    from released have g2: "handles (fst (snd ?r)) = handles wd" by blast
    from released have "finalized (fst (snd ?r)) (zip_path debug_py)
        = (\<not> torn (fst (snd (loop debug_py (rglob w1 (script_dir debug_py)) w1))) (zip_path debug_py))"
      by (simp only:)
    with t have g3: "finalized (fst (snd ?r)) (zip_path debug_py) = (\<not> t)" by (simp only:)
    from g1 g2 g3 show ?thesis by blast
  qed
  have "fst (run debug_py locked_world) = Inl PermissionError
      \<and> handles (fst (snd (run debug_py locked_world))) = handles locked_world
      \<and> finalized (fst (snd (run debug_py locked_world))) (zip_path debug_py) = (\<not> False)"
    by (rule one [where ?w1.0 = "locked_world\<lparr>fs := fs locked_world @ [(?z, File (Zip False []))],
                      handles := [?z]\<rparr>"])
      (simp_all add: locked_world_def debug_world_def debug_py_def model_defs)
  moreover
  have "fst (run debug_py full_world) = Inl OSError
      \<and> handles (fst (snd (run debug_py full_world))) = handles full_world
      \<and> finalized (fst (snd (run debug_py full_world))) (zip_path debug_py) = (\<not> True)"
    by (rule one [where ?w1.0 = "full_world\<lparr>fs := fs full_world @ [(?z, File (Zip False []))],
                      handles := [?z]\<rparr>"])
      (simp_all add: full_world_def debug_world_def debug_py_def model_defs)
  ultimately show ?thesis by simp
qed

text \<open>
  C8 fails as stated on the error path of a failed write: when \<^verbatim>\<open>b/c.txt\<close> does not fit
  into the archive file, the run ends with the error and the handle released, but the
  file left at the destination is cut short and has no closing records.
\<close>

theorem failed_write_leaves_archive_unfinalized:
  "[''srv'', ''debug'', ''b'', ''c.txt''] \<in> set (no_store full_world)
   \<and> fst (run debug_py full_world) = Inl OSError
   \<and> handles (fst (snd (run debug_py full_world))) = []
   \<and> exists (fst (snd (run debug_py full_world))) (zip_path debug_py)
   \<and> torn (fst (snd (run debug_py full_world))) (zip_path debug_py)
   \<and> \<not> finalized (fst (snd (run debug_py full_world))) (zip_path debug_py)"
  by (simp add: full_world_def debug_world_def debug_py_def model_defs)

text \<open>
  C9 (amended). When the write of some file of the walk raises after the files before it
  were added, the run ends with that exception and nothing is cleaned up: a file stays at
  the destination, and the lines printed report the entries added before. What that file
  is depends on what failed. When the file could not be opened, it is a finalized archive
  holding exactly the entries reported. When the file opened and its read raised, it is a
  finalized archive holding those and one more, an entry without bytes for that file,
  never reported. Otherwise the write to the archive failed, and the file is cut short,
  not finalized. So the presence of the output file, even of a well-formed archive, is no
  evidence of success.
\<close>

theorem failed_entry_leaves_file:
  assumes "remove_old file w = (Inr (), w0, out0)"
    and "ZipFile w0 (zip_path file) = Inr w1"
    and "rglob w1 (script_dir file) = before @ p # after"
    and "loop file before w1 = (Inr (), wi, outi)"
    and "is_file wi p" and "name p \<noteq> ''repackage.py''"
    and "relative_to p (parent (script_dir file)) = Inr a"
    and "zf_write wi (zip_path file) p a = Inl e"
    and "run file w = (r, w', out)"
  shows "r = Inl e
       \<and> exists w' (zip_path file)
       \<and> out = out0 @ Packaging_skill (skill_name file) # outi
       \<and> (if p \<in> set (no_read w) then
            e = PermissionError \<and> finalized w' (zip_path file)
            \<and> map (Added \<circ> fst) (entries w' (zip_path file)) = outi
          else if p \<in> set (bad_read w) then
            e = OSError \<and> finalized w' (zip_path file)
            \<and> map (Added \<circ> fst) (butlast (entries w' (zip_path file))) = outi
            \<and> entries w' (zip_path file) \<noteq> []
            \<and> last (entries w' (zip_path file)) = (a, Bytes [])
          else
            e = OSError \<and> p \<in> set (no_store w)
            \<and> torn w' (zip_path file) \<and> \<not> finalized w' (zip_path file))"
proof -
  let ?z = "zip_path file" and ?d = "script_dir file"
  from remove_old_cases [OF assms(1)] have w0: "w0 = w\<lparr>fs := AList.delete ?z (fs w)\<rparr>" by auto
  from ZipFile_Inr [OF assms(2)] have
    w1: "w1 = w0\<lparr>fs := AList.update ?z (File (Zip False [])) (fs w0), handles := ?z # handles w0\<rparr>"
    by simp
  have z1: "lookup w1 ?z = Some (File (Zip False []))"
    by (simp add: w1 lookup_def update_conv')
  from loop_success [OF assms(4) z1] obtain es where
    wi: "wi = w1\<lparr>fs := AList.update ?z (File (Zip False es)) (fs w1)\<rparr>"
    and outi: "outi = map (Added \<circ> fst) es" by auto
  have zi: "lookup wi ?z = Some (File (Zip False es))" by (simp add: wi lookup_update_fs)
  have hi: "?z \<in> set (handles wi)" by (simp add: wi w1)
  have faults: "no_read wi = no_read w" "bad_read wi = bad_read w" "no_store wi = no_store w"
    by (simp_all add: wi w1 w0)
  from assms(5) obtain c where c: "lookup wi p = Some (File c)"
    by (auto simp: is_file_def split: option.splits node.splits)
  note call = ZipFile_write_file [OF hi c zi, of a, unfolded faults]
  from zf_write_Inl [OF assms(8)] obtain wl where wl: "ZipFile_write wi ?z p a = (Inl e, wl)"
    by blast
  from loop_write_raises [OF assms(4) assms(5) assms(6) assms(7) wl] assms(3)
  have lp: "loop file (rglob w1 ?d) w1 = (Inl e, wl, outi)" by simp
  obtain r1 w'' out1 where ar: "archive file w0 = (r1, w'', out1)"
    by (cases "archive file w0") auto
  from archive_opened [OF assms(2) ar] lp have out1: "out1 = outi"
    and cases: "(\<exists>es'. wl = w1\<lparr>fs := AList.update ?z (File (Zip False es')) (fs w1)\<rparr>
                \<and> w'' = w0\<lparr>fs := AList.update ?z (File (Zip True es')) (fs w0)\<rparr>
                \<and> r1 = Inl e)
          \<or> (\<exists>es'. wl = w1\<lparr>fs := AList.update ?z (File (Torn es')) (fs w1)\<rparr>
                \<and> w'' = w0\<lparr>fs := AList.update ?z (File (Torn es')) (fs w0)\<rparr>
                \<and> e = OSError \<and> r1 = Inl OSError)"
    by auto
  from cases have r1: "r1 = Inl e" by auto
  from run_lines [OF assms(1) ar [unfolded r1]] assms(9) out1
  have run: "r = Inl e" "w' = w''" "out = out0 @ Packaging_skill (skill_name file) # outi"
    by simp_all
  from cases have ex: "exists w' ?z"
    by (auto simp: run exists_def lookup_def update_conv')
  have left: "lookup w' ?z = Some (File (Zip True es'))"
    if "lookup wl ?z = Some (File (Zip False es'))" for es'
    using cases that by (auto simp: run lookup_update_fs)
  have cut: "torn w' ?z \<and> \<not> finalized w' ?z"
    if "lookup wl ?z = Some (File (Torn es'))" for es'
    using cases that by (auto simp: run lookup_update_fs torn_update_fs)
  have what: "if p \<in> set (no_read w) then
            e = PermissionError \<and> finalized w' ?z
            \<and> map (Added \<circ> fst) (entries w' ?z) = outi
          else if p \<in> set (bad_read w) then
            e = OSError \<and> finalized w' ?z
            \<and> map (Added \<circ> fst) (butlast (entries w' ?z)) = outi
            \<and> entries w' ?z \<noteq> []
            \<and> last (entries w' ?z) = (a, Bytes [])
          else
            e = OSError \<and> p \<in> set (no_store w)
            \<and> torn w' ?z \<and> \<not> finalized w' ?z"
  proof (cases "p \<in> set (no_read w)")
    case True
    with call wl have "e = PermissionError" "wl = wi" by simp_all
    with zi left [of es] True outi show ?thesis
      by (simp add: finalized_def entries_def)
  next
    case readable: False
    show ?thesis
    proof (cases "p \<in> set (bad_read w)")
      case True
      with readable call wl have "e = OSError"
        "wl = wi\<lparr>fs := AList.update ?z (File (Zip False (es @ [(a, Bytes [])]))) (fs wi)\<rparr>"
        by simp_all
      then have "e = OSError" "lookup wl ?z = Some (File (Zip False (es @ [(a, Bytes [])])))"
        by (simp_all add: lookup_update_fs)
      with left [of "es @ [(a, Bytes [])]"] True readable outi show ?thesis
        by (simp add: finalized_def entries_def)
    next
      case False
      with readable call wl have "e = OSError \<and> p \<in> set (no_store w)
          \<and> wl = wi\<lparr>fs := AList.update ?z (File (Torn es)) (fs wi)\<rparr>"
        by (auto split: if_splits)
      then have "e = OSError" "p \<in> set (no_store w)" "lookup wl ?z = Some (File (Torn es))"
        by (simp_all add: lookup_update_fs)
      with cut [of es] False readable show ?thesis by simp
    qed
  qed
  from run ex what show ?thesis by simp
qed

text \<open>
  The file \<^verbatim>\<open>b/c.txt\<close> opens and its read raises: the archive left is well formed and
  holds an entry without bytes for it, after the one entry reported.
\<close>

theorem failed_entry_leaves_file_witness:
  "fst (run debug_py faulty_world) = Inl OSError
   \<and> exists (fst (snd (run debug_py faulty_world))) (zip_path debug_py)
   \<and> snd (snd (run debug_py faulty_world))
       = [Packaging_skill ''debug'', Added [''debug'', ''a.txt'']]
   \<and> finalized (fst (snd (run debug_py faulty_world))) (zip_path debug_py)
   \<and> last (entries (fst (snd (run debug_py faulty_world))) (zip_path debug_py))
       = ([''debug'', ''b'', ''c.txt''], Bytes [])"
proof -
  let ?r = "run debug_py faulty_world"
  let ?z = "[''srv'', ''debug.zip'']"
  let ?w1 = "faulty_world\<lparr>fs := fs faulty_world @ [(?z, File (Zip False []))],
      handles := [?z]\<rparr>"
  let ?wi = "faulty_world\<lparr>fs := fs faulty_world
      @ [(?z, File (Zip False [([''debug'', ''a.txt''], Bytes ''A'')]))], handles := [?z]\<rparr>"
  let ?p = "[''srv'', ''debug'', ''b'', ''c.txt'']"
  have a: "remove_old debug_py faulty_world = (Inr (), faulty_world, [])"
    by (simp add: faulty_world_def debug_world_def debug_py_def model_defs)
  have b: "ZipFile faulty_world (zip_path debug_py) = Inr ?w1"
    by (simp add: faulty_world_def debug_world_def debug_py_def model_defs)
  have c: "rglob ?w1 (script_dir debug_py)
      = [[''srv'', ''debug'', ''a.txt''], [''srv'', ''debug'', ''b'']] @ ?p
          # [[''srv'', ''debug'', ''b'', ''repackage.py''], [''srv'', ''debug'', ''repackage.py'']]"
    by (simp add: faulty_world_def debug_world_def debug_py_def model_defs)
  have d: "loop debug_py [[''srv'', ''debug'', ''a.txt''], [''srv'', ''debug'', ''b'']] ?w1
      = (Inr (), ?wi, [Added [''debug'', ''a.txt'']])"
    by (simp add: faulty_world_def debug_world_def debug_py_def model_defs)
  have e: "is_file ?wi ?p" "name ?p \<noteq> ''repackage.py''"
    "relative_to ?p (parent (script_dir debug_py)) = Inr [''debug'', ''b'', ''c.txt'']"
    "zf_write ?wi (zip_path debug_py) ?p [''debug'', ''b'', ''c.txt''] = Inl OSError"
    by (simp_all add: faulty_world_def debug_world_def debug_py_def model_defs)
  have f: "?r = (fst ?r, fst (snd ?r), snd (snd ?r))" by simp
  have s: "skill_name debug_py = ''debug''" by (simp add: debug_py_def model_defs)
  have n: "?p \<notin> set (no_read faulty_world)" "?p \<in> set (bad_read faulty_world)"
    by (simp_all add: faulty_world_def debug_world_def)
  from failed_entry_leaves_file [OF a b c d e f] s n show ?thesis by simp
qed

text \<open>
  C9 fails as stated: after the opening of \<^verbatim>\<open>b/c.txt\<close> has raised, the archive left at
  the destination is finalized, with the one entry written before.
\<close>

theorem failed_run_leaves_finalized_archive:
  "fst (run debug_py locked_world) = Inl PermissionError
   \<and> finalized (fst (snd (run debug_py locked_world))) (zip_path debug_py)
   \<and> entries (fst (snd (run debug_py locked_world))) (zip_path debug_py)
       = [([''debug'', ''a.txt''], Bytes ''A'')]"
  by (simp add: locked_world_def debug_world_def debug_py_def model_defs)

section \<open>The destination and the walk\<close>

text \<open>
  C10, on the usage of the docstring. The docstring announces the output
  \<^verbatim>\<open>../debug.zip\<close>, beside the directory that is packed. With the relative
  \<^verbatim>\<open>__file__\<close>, lines 15 to 17 give the source directory \<^verbatim>\<open>.\<close>, the empty skill name and
  the destination \<^verbatim>\<open>./.zip\<close>, inside the directory that is packed: the walk yields the
  archive that is being written, and the archive receives an entry for itself.
\<close>

theorem usage_archive_contains_itself:
  "script_dir usage_py = []
   \<and> skill_name usage_py = []
   \<and> zip_path usage_py = [''.zip'']
   \<and> strict_prefix (script_dir usage_py) (zip_path usage_py)
   \<and> relative_to (zip_path usage_py) (parent (script_dir usage_py)) = Inr [''.zip'']
   \<and> fst (run usage_py usage_world) = Inr ()
   \<and> [''.zip''] \<in> fst ` set (entries (fst (snd (run usage_py usage_world))) (zip_path usage_py))"
  by (simp add: usage_world_def usage_py_def model_defs)

end
